theory Spec2Isabelle
  imports Complex_Main "HOL-Library.Log_Nat" "HOL-Library.Multiset"
begin

section \<open>JavaScript numbers\<close>

text \<open>
  A JavaScript number is an IEEE 754 double: a finite value, NaN, or one of the two
  infinities. A finite double is modelled by the rational number it denotes; the results
  of arithmetic are rounded to the nearest double (ties to the even significand) by
  \<open>fl\<close>, with 53 significant bits, gradual underflow below \<open>2^-1022\<close> and overflow
  to an infinity from \<open>2^1024\<close> on. The sign of zero is not modelled: \<open>-0\<close> and \<open>+0\<close>
  are the same value \<open>Fin 0\<close> (the component never divides by a variable).
\<close>

datatype jsnum = Fin rat | NaN | PosInf | NegInf

definition round_even :: "rat \<Rightarrow> int" where
  "round_even x = (let f = \<lfloor>x\<rfloor>; d = x - of_int f in
       if d < 1 / 2 then f else if 1 / 2 < d then f + 1 else if even f then f else f + 1)"

definition pow2 :: "int \<Rightarrow> rat" where
  "pow2 e = (if 0 \<le> e then 2 ^ nat e else 1 / 2 ^ nat (- e))"

text \<open>\<open>ilog2 x\<close> is the binary exponent \<open>\<lfloor>log\<^sub>2 x\<rfloor>\<close> of a positive rational.\<close>

definition ilog2 :: "rat \<Rightarrow> int" where
  "ilog2 x = (if 1 \<le> x then int (floorlog 2 (nat \<lfloor>x\<rfloor>)) - 1
              else - int (floorlog 2 (nat (\<lceil>1 / x\<rceil> - 1))))"

definition fl :: "rat \<Rightarrow> jsnum" where
  "fl x = (if x = 0 then Fin 0 else
     let e = max (ilog2 \<bar>x\<bar>) (- 1022);
         u = pow2 (e - 52);
         m = round_even (\<bar>x\<bar> / u)
     in if 1024 \<le> e \<or> (e = 1023 \<and> 2 ^ 53 \<le> m)
        then (if 0 < x then PosInf else NegInf)
        else Fin (sgn x * of_int m * u))"

fun isFinite :: "jsnum \<Rightarrow> bool" where
  "isFinite (Fin x) = True"
| "isFinite _ = False"

fun js_neg :: "jsnum \<Rightarrow> jsnum" where
  "js_neg (Fin x) = Fin (- x)"
| "js_neg NaN = NaN"
| "js_neg PosInf = NegInf"
| "js_neg NegInf = PosInf"

text \<open>The operators \<open>*\<close>, \<open>/\<close> and \<open>-\<close> on numbers.\<close>

fun js_times :: "jsnum \<Rightarrow> jsnum \<Rightarrow> jsnum" where
  "js_times (Fin a) (Fin b) = fl (a * b)"
| "js_times NaN _ = NaN"
| "js_times _ NaN = NaN"
| "js_times (Fin a) PosInf = (if a = 0 then NaN else if 0 < a then PosInf else NegInf)"
| "js_times (Fin a) NegInf = (if a = 0 then NaN else if 0 < a then NegInf else PosInf)"
| "js_times PosInf (Fin b) = (if b = 0 then NaN else if 0 < b then PosInf else NegInf)"
| "js_times NegInf (Fin b) = (if b = 0 then NaN else if 0 < b then NegInf else PosInf)"
| "js_times PosInf PosInf = PosInf"
| "js_times PosInf NegInf = NegInf"
| "js_times NegInf PosInf = NegInf"
| "js_times NegInf NegInf = PosInf"

fun js_div :: "jsnum \<Rightarrow> jsnum \<Rightarrow> jsnum" where
  "js_div (Fin a) (Fin b) =
     (if b = 0 then (if a = 0 then NaN else if 0 < a then PosInf else NegInf)
      else fl (a / b))"
| "js_div NaN _ = NaN"
| "js_div _ NaN = NaN"
| "js_div (Fin a) PosInf = Fin 0"
| "js_div (Fin a) NegInf = Fin 0"
| "js_div PosInf (Fin b) = (if 0 \<le> b then PosInf else NegInf)"
| "js_div NegInf (Fin b) = (if 0 \<le> b then NegInf else PosInf)"
| "js_div PosInf PosInf = NaN"
| "js_div PosInf NegInf = NaN"
| "js_div NegInf PosInf = NaN"
| "js_div NegInf NegInf = NaN"

fun js_minus :: "jsnum \<Rightarrow> jsnum \<Rightarrow> jsnum" where
  "js_minus (Fin a) (Fin b) = fl (a - b)"
| "js_minus NaN _ = NaN"
| "js_minus _ NaN = NaN"
| "js_minus (Fin a) PosInf = NegInf"
| "js_minus (Fin a) NegInf = PosInf"
| "js_minus PosInf (Fin b) = PosInf"
| "js_minus NegInf (Fin b) = NegInf"
| "js_minus PosInf PosInf = NaN"
| "js_minus PosInf NegInf = PosInf"
| "js_minus NegInf PosInf = NegInf"
| "js_minus NegInf NegInf = NaN"

text \<open>The comparison \<open>a < b\<close> (false whenever an operand is NaN) and \<open>a === b\<close> on numbers.\<close>

fun js_less :: "jsnum \<Rightarrow> jsnum \<Rightarrow> bool" where
  "js_less (Fin a) (Fin b) = (a < b)"
| "js_less NaN _ = False"
| "js_less _ NaN = False"
| "js_less (Fin a) PosInf = True"
| "js_less (Fin a) NegInf = False"
| "js_less PosInf _ = False"
| "js_less NegInf (Fin b) = True"
| "js_less NegInf PosInf = True"
| "js_less NegInf NegInf = False"

fun js_eq :: "jsnum \<Rightarrow> jsnum \<Rightarrow> bool" where
  "js_eq NaN _ = False"
| "js_eq _ NaN = False"
| "js_eq a b = (a = b)"

text \<open>
  \<open>Math.round\<close> gives the nearest integer, a tie going up (towards \<open>+\<infinity>\<close>); the result
  is representable, so no rounding to a double takes place. \<open>Math.min\<close> and
  \<open>Math.max\<close> of two numbers give NaN when an operand is NaN.
\<close>

fun Math_round :: "jsnum \<Rightarrow> jsnum" where
  "Math_round (Fin x) = Fin (of_int \<lfloor>x + 1 / 2\<rfloor>)"
| "Math_round x = x"

definition Math_min :: "jsnum \<Rightarrow> jsnum \<Rightarrow> jsnum" where
  "Math_min a b = (if a = NaN \<or> b = NaN then NaN else if js_less b a then b else a)"

definition Math_max :: "jsnum \<Rightarrow> jsnum \<Rightarrow> jsnum" where
  "Math_max a b = (if a = NaN \<or> b = NaN then NaN else if js_less a b then b else a)"


section \<open>Strings\<close>

text \<open>
  A string is a list of characters, one per code unit; the model covers ASCII text.
  White space, as \<open>String.prototype.trim\<close> and the conversion of a string to a number
  see it, is tab, line feed, vertical tab, form feed, carriage return and space.
\<close>

definition is_ws :: "char \<Rightarrow> bool" where
  "is_ws c \<longleftrightarrow> c \<in> {CHR 0x09, CHR 0x0A, CHR 0x0B, CHR 0x0C, CHR 0x0D, CHR 0x20}"

definition trim :: "string \<Rightarrow> string" where
  "trim s = rev (dropWhile is_ws (rev (dropWhile is_ws s)))"

text \<open>\<open>toLowerCase\<close> on ASCII text: the capital letters map to the small ones.\<close>

definition toLowerCase :: "string \<Rightarrow> string" where
  "toLowerCase s =
     map (\<lambda>c. case map_of (zip ''ABCDEFGHIJKLMNOPQRSTUVWXYZ'' ''abcdefghijklmnopqrstuvwxyz'') c of
                Some l \<Rightarrow> l
              | None \<Rightarrow> c) s"

definition is_digit :: "char \<Rightarrow> bool" where
  "is_digit c \<longleftrightarrow> c \<in> set ''0123456789''"

definition digit_val :: "char \<Rightarrow> nat" where
  "digit_val c = of_char c - 48"

text \<open>The value of a string of digits in a radix, most significant digit first.\<close>

definition radix_val :: "nat \<Rightarrow> (char \<Rightarrow> nat) \<Rightarrow> string \<Rightarrow> nat" where
  "radix_val b dv s = foldl (\<lambda>a c. b * a + dv c) 0 s"

definition digits_val :: "string \<Rightarrow> nat" where
  "digits_val s = radix_val 10 digit_val s"

text \<open>\<open>String(n)\<close> for a non-negative integer and for an integer below \<open>10^21\<close> in size.\<close>

definition digit_char :: "nat \<Rightarrow> char" where
  "digit_char d = ''0123456789'' ! d"

fun String_nat :: "nat \<Rightarrow> string" where
  "String_nat n = (if n < 10 then [digit_char n] else String_nat (n div 10) @ [digit_char (n mod 10)])"

declare String_nat.simps [simp del]

definition String_int :: "int \<Rightarrow> string" where
  "String_int i = (if i < 0 then CHR ''-'' # String_nat (nat (- i)) else String_nat (nat i))"

definition padStart :: "nat \<Rightarrow> char \<Rightarrow> string \<Rightarrow> string" where
  "padStart n c s = replicate (n - length s) c @ s"

text \<open>\<open>s.split(c)\<close> for a separator of one character.\<close>

fun push_front :: "char \<Rightarrow> string list \<Rightarrow> string list" where
  "push_front c [] = [[c]]"
| "push_front c (l # ls) = (c # l) # ls"

fun split_on :: "char \<Rightarrow> string \<Rightarrow> string list" where
  "split_on c [] = [[]]"
| "split_on c (x # xs) = (if x = c then [] # split_on c xs else push_front x (split_on c xs))"

text \<open>
  \<open>text.split(/\r?\n/)\<close>: a line feed ends a line, together with the carriage return
  before it when there is one; a carriage return alone is an ordinary character.
\<close>

fun split_lines :: "string \<Rightarrow> string list" where
  "split_lines [] = [[]]"
| "split_lines [c] = (if c = CHR 0x0A then [[], []] else [[c]])"
| "split_lines (c # d # cs) =
     (if c = CHR 0x0A then [] # split_lines (d # cs)
      else if c = CHR 0x0D \<and> d = CHR 0x0A then [] # split_lines cs
      else push_front c (split_lines (d # cs)))"

text \<open>\<open>xs[i]\<close> on an array: \<open>None\<close> stands for \<open>undefined\<close>.\<close>

definition nth_opt :: "'a list \<Rightarrow> nat \<Rightarrow> 'a option" where
  "nth_opt xs i = (if i < length xs then Some (xs ! i) else None)"

subsection \<open>Converting a string to a number\<close>

text \<open>
  \<open>Number(s)\<close> on a string (the StringNumericLiteral grammar of ECMAScript): the string
  is trimmed; the empty string is 0; a decimal literal has an optional sign, digits with
  an optional fraction, and an optional exponent, or is \<open>Infinity\<close>; a literal with the
  prefix \<open>0x\<close>, \<open>0o\<close> or \<open>0b\<close> is an unsigned integer in that radix; every other string
  is NaN. The mathematical value of the literal is rounded to a double.
\<close>

definition hex_val :: "char \<Rightarrow> nat" where
  "hex_val c = (let n = (of_char c :: nat) in
     if 48 \<le> n \<and> n \<le> 57 then n - 48 else if 65 \<le> n \<and> n \<le> 70 then n - 55 else n - 87)"

definition is_hex :: "char \<Rightarrow> bool" where
  "is_hex c \<longleftrightarrow> c \<in> set ''0123456789abcdefABCDEF''"

definition ExponentPart :: "string \<Rightarrow> int option" where
  "ExponentPart r =
     (case r of
        [] \<Rightarrow> Some 0
      | c # r' \<Rightarrow>
          if c = CHR ''e'' \<or> c = CHR ''E'' then
            (case r' of
               [] \<Rightarrow> None
             | d # r'' \<Rightarrow>
                 if d = CHR ''+'' \<and> r'' \<noteq> [] \<and> list_all is_digit r'' then Some (int (digits_val r''))
                 else if d = CHR ''-'' \<and> r'' \<noteq> [] \<and> list_all is_digit r'' then Some (- int (digits_val r''))
                 else if list_all is_digit r' then Some (int (digits_val r'))
                 else None)
          else None)"

definition pow10 :: "int \<Rightarrow> rat" where
  "pow10 e = (if 0 \<le> e then 10 ^ nat e else 1 / 10 ^ nat (- e))"

definition StrUnsignedDecimalLiteral :: "string \<Rightarrow> jsnum option" where
  "StrUnsignedDecimalLiteral t =
     (if t = ''Infinity'' then Some PosInf
      else
        let ip = takeWhile is_digit t;
            r1 = dropWhile is_digit t;
            dot = (r1 \<noteq> [] \<and> hd r1 = CHR ''.'');
            fp = (if dot then takeWhile is_digit (tl r1) else []);
            r2 = (if dot then dropWhile is_digit (tl r1) else r1)
        in if ip = [] \<and> fp = [] then None
           else (case ExponentPart r2 of
                   None \<Rightarrow> None
                 | Some ex \<Rightarrow>
                     Some (fl (of_nat (digits_val (ip @ fp)) / 10 ^ length fp * pow10 ex))))"

definition StrDecimalLiteral :: "string \<Rightarrow> jsnum option" where
  "StrDecimalLiteral t =
     (case t of
        [] \<Rightarrow> None
      | c # r \<Rightarrow>
          if c = CHR ''+'' then StrUnsignedDecimalLiteral r
          else if c = CHR ''-'' then map_option js_neg (StrUnsignedDecimalLiteral r)
          else StrUnsignedDecimalLiteral t)"

definition NonDecimalIntegerLiteral :: "string \<Rightarrow> jsnum option" where
  "NonDecimalIntegerLiteral t =
     (case t of
        z # p # ds \<Rightarrow>
          if z = CHR ''0'' \<and> ds \<noteq> [] then
            (if (p = CHR ''x'' \<or> p = CHR ''X'') \<and> list_all is_hex ds
               then Some (fl (of_nat (radix_val 16 hex_val ds)))
             else if (p = CHR ''o'' \<or> p = CHR ''O'') \<and> list_all (\<lambda>c. c \<in> set ''01234567'') ds
               then Some (fl (of_nat (radix_val 8 digit_val ds)))
             else if (p = CHR ''b'' \<or> p = CHR ''B'') \<and> list_all (\<lambda>c. c \<in> set ''01'') ds
               then Some (fl (of_nat (radix_val 2 digit_val ds)))
             else None)
          else None
      | _ \<Rightarrow> None)"

definition StringToNumber :: "string \<Rightarrow> jsnum" where
  "StringToNumber s =
     (let t = trim s in
      if t = [] then Fin 0
      else (case NonDecimalIntegerLiteral t of
              Some n \<Rightarrow> n
            | None \<Rightarrow> (case StrDecimalLiteral t of Some n \<Rightarrow> n | None \<Rightarrow> NaN)))"

section \<open>JavaScript values\<close>

text \<open>
  The values that reach the component: \<open>undefined\<close>, \<open>null\<close>, booleans, numbers,
  strings, and the arrays and plain objects that \<open>JSON.parse\<close> builds. An object is the
  list of its own properties.
\<close>

datatype jsval =
    Undefined
  | Null
  | Bool bool
  | Num jsnum
  | Str string
  | Arr "jsval list"
  | Obj "(string \<times> jsval) list"

text \<open>
  \<open>Number(v)\<close>. An array converts through its string form, the elements joined by
  commas: the empty array is 0, an array of one element converts as that element's
  string does, a longer one is NaN. A plain object converts through
  \<open>"[object Object]"\<close> to NaN. (On an object that has an own property \<open>toString\<close>
  the conversion throws instead; \<open>unconvertible\<close> recognises these values.)
\<close>

fun ToNumber :: "jsval \<Rightarrow> jsnum" where
  "ToNumber Undefined = NaN"
| "ToNumber Null = Fin 0"
| "ToNumber (Bool b) = (if b then Fin 1 else Fin 0)"
| "ToNumber (Num n) = n"
| "ToNumber (Str s) = StringToNumber s"
| "ToNumber (Obj kvs) = NaN"
| "ToNumber (Arr []) = Fin 0"
| "ToNumber (Arr [Undefined]) = Fin 0"
| "ToNumber (Arr [Null]) = Fin 0"
| "ToNumber (Arr [Bool b]) = NaN"
| "ToNumber (Arr [Num n]) = n"
| "ToNumber (Arr [Str s]) = StringToNumber s"
| "ToNumber (Arr [Obj kvs]) = NaN"
| "ToNumber (Arr [Arr xs]) = ToNumber (Arr xs)"
| "ToNumber (Arr (x # y # zs)) = NaN"

fun unconvertible :: "jsval \<Rightarrow> bool" where
  "unconvertible (Obj kvs) = (''toString'' \<in> fst ` set kvs)"
| "unconvertible (Arr xs) = (\<exists>x \<in> set xs. unconvertible x)"
| "unconvertible _ = False"

text \<open>\<open>typeof v === "object"\<close> and the truthiness of a value.\<close>

fun is_object :: "jsval \<Rightarrow> bool" where
  "is_object Null = True"
| "is_object (Arr xs) = True"
| "is_object (Obj kvs) = True"
| "is_object _ = False"

fun truthy :: "jsval \<Rightarrow> bool" where
  "truthy Undefined = False"
| "truthy Null = False"
| "truthy (Bool b) = b"
| "truthy (Num n) = (n \<noteq> NaN \<and> n \<noteq> Fin 0)"
| "truthy (Str s) = (s \<noteq> [])"
| "truthy _ = True"

text \<open>
  \<open>k in v\<close> and \<open>v[k]\<close> for a key \<open>k\<close> that is neither an array index nor a property of
  the prototypes (the names of the energy sources are such keys).
\<close>

fun own :: "jsval \<Rightarrow> string \<Rightarrow> jsval option" where
  "own (Obj kvs) k = map_of kvs k"
| "own _ k = None"


text \<open>
  What \<open>JSON.parse(JSON.stringify(v))\<close> makes of a value: a number that is not finite
  becomes \<open>null\<close>, as does \<open>undefined\<close> inside an array, and a property whose value is
  \<open>undefined\<close> is left out.
\<close>

fun jsonify :: "jsval \<Rightarrow> jsval" where
  "jsonify Undefined = Null"
| "jsonify (Num n) = (if isFinite n then Num n else Null)"
| "jsonify (Arr xs) = Arr (map jsonify xs)"
| "jsonify (Obj kvs) =
     Obj (map (\<lambda>kv. (fst kv, jsonify (snd kv))) (filter (\<lambda>kv. snd kv \<noteq> Undefined) kvs))"
| "jsonify v = v"

section \<open>Exceptions, durable storage and the network\<close>

datatype exn = TypeError | SyntaxError | SecurityError | Error

text \<open>
  A stored string is identified with what \<open>JSON.parse\<close> makes of it: the text of a JSON
  value, a non-empty text that \<open>JSON.parse\<close> rejects, or the empty string. The storage
  is either blocked, every access throwing, or maps keys to stored strings.
\<close>

datatype stored = Json jsval | Malformed | Empty

datatype storage = Blocked | Store "string \<Rightarrow> stored option"

fun getItem :: "storage \<Rightarrow> string \<Rightarrow> exn + stored option" where
  "getItem Blocked key = Inl SecurityError"
| "getItem (Store m) key = Inr (m key)"

fun setItem :: "storage \<Rightarrow> string \<Rightarrow> stored \<Rightarrow> exn + storage" where
  "setItem Blocked key v = Inl SecurityError"
| "setItem (Store m) key v = Inr (Store (m(key \<mapsto> v)))"

fun JSON_parse :: "stored \<Rightarrow> exn + jsval" where
  "JSON_parse (Json v) = Inr v"
| "JSON_parse Malformed = Inl SyntaxError"
| "JSON_parse Empty = Inl SyntaxError"

text \<open>
  The outcome of \<open>fetch\<close> followed by \<open>res.text()\<close>: the request is rejected, or a
  response arrives with its \<open>ok\<close> flag and its body (\<open>None\<close> when reading the body
  fails).
\<close>

datatype response = Rejected | Response bool "string option"

section \<open>Energy sources\<close>

datatype source = Coal | Oil_Gas | Nuclear | Hydro | Solar | Wind | Small_Hydro | Bio_Power

definition SOURCES :: "source list" where
  "SOURCES = [Coal, Oil_Gas, Nuclear, Hydro, Solar, Wind, Small_Hydro, Bio_Power]"

fun source_name :: "source \<Rightarrow> string" where
  "source_name Coal = ''Coal''"
| "source_name Oil_Gas = ''Oil & Gas''"
| "source_name Nuclear = ''Nuclear''"
| "source_name Hydro = ''Hydro''"
| "source_name Solar = ''Solar''"
| "source_name Wind = ''Wind''"
| "source_name Small_Hydro = ''Small-Hydro''"
| "source_name Bio_Power = ''Bio Power''"

text \<open>
  A \<open>Record<SourceKey, number>\<close> is a function from the sources; of the objects that
  hold one, only the eight source properties are modelled.
\<close>

type_synonym capacity = "source \<Rightarrow> jsnum"

definition zeros :: capacity where
  "zeros = (\<lambda>k. Fin 0)"

definition round2 :: "jsnum \<Rightarrow> jsnum" where
  "round2 n = js_div (Math_round (js_times n (Fin 100))) (Fin 100)"

text \<open>\<open>JSON.stringify\<close> of an object with the source properties.\<close>

definition JSON_stringify :: "(source \<Rightarrow> jsval) \<Rightarrow> stored" where
  "JSON_stringify obj =
     Json (Obj (map (\<lambda>k. (source_name k, jsonify (obj k)))
                    (filter (\<lambda>k. obj k \<noteq> Undefined) SOURCES)))"

section \<open>The snapshot component of src/RatedCapacity.tsx\<close>

definition LS_INSTALLED :: string where
  "LS_INSTALLED = ''ratedCapacity_installed''"

definition LS_PLF :: string where
  "LS_PLF = ''ratedCapacity_plf''"

definition safeNum :: "jsval \<Rightarrow> jsnum" where
  "safeNum v =
     (let n = (case v of Str s \<Rightarrow> ToNumber (Str (trim s)) | _ \<Rightarrow> ToNumber v)
      in if isFinite n then n else Fin 0)"

text \<open>
  \<open>parseCapacityCSV\<close>: the header and the first data row of the trimmed, non-empty
  lines; \<open>csv_map\<close> is the object \<open>map\<close>, a later column of the same name overwriting
  an earlier one, a missing cell being the empty string.
\<close>

definition csv_map :: "string list \<Rightarrow> string list \<Rightarrow> string \<Rightarrow> string option" where
  "csv_map headers vs =
     map_of (rev (map (\<lambda>i. (headers ! i, case nth_opt vs i of Some v \<Rightarrow> v | None \<Rightarrow> []))
                      [0 ..< length headers]))"

definition parseCapacityCSV :: "string \<Rightarrow> capacity option" where
  "parseCapacityCSV text =
     (let lines = filter (\<lambda>l. l \<noteq> []) (map trim (split_lines text)) in
      if length lines < 2 then None
      else
        let headers = map trim (split_on CHR '','' (lines ! 0));
            vs = map trim (split_on CHR '','' (lines ! 1));
            m = csv_map headers vs
        in if \<exists>k \<in> set SOURCES. m (source_name k) = None then None
           else Some (\<lambda>k. safeNum (case m (source_name k) of Some v \<Rightarrow> Str v | None \<Rightarrow> Undefined)))"

text \<open>
  \<open>loadLS\<close>: \<open>None\<close> is the result \<open>null\<close>; in the record returned, \<open>None\<close> is a
  property that is absent. Every exception of the \<open>try\<close> block ends in \<open>null\<close>.
\<close>

definition loadLS :: "storage \<Rightarrow> string \<Rightarrow> (source \<Rightarrow> jsnum option) option" where
  "loadLS st key =
     (case getItem st key of
        Inl e \<Rightarrow> None
      | Inr None \<Rightarrow> None
      | Inr (Some raw) \<Rightarrow>
          if raw = Empty then None
          else (case JSON_parse raw of
                  Inl e \<Rightarrow> None
                | Inr obj \<Rightarrow>
                    if \<not> truthy obj \<or> \<not> is_object obj then None
                    else if \<exists>k \<in> set SOURCES.
                              (case own obj (source_name k) of
                                 Some v \<Rightarrow> unconvertible v
                               | None \<Rightarrow> False)
                      then None
                    else Some (\<lambda>k. map_option safeNum (own obj (source_name k)))))"

definition saveLS :: "storage \<Rightarrow> string \<Rightarrow> capacity \<Rightarrow> storage" where
  "saveLS st key obj =
     (case setItem st key (JSON_stringify (\<lambda>k. Num (obj k))) of
        Inl e \<Rightarrow> st
      | Inr st' \<Rightarrow> st')"

record state =
  installed :: capacity
  plf :: capacity
  csvLoaded :: bool

definition initial_state :: state where
  "initial_state = \<lparr>installed = zeros, plf = zeros, csvLoaded = True\<rparr>"

text \<open>
  The updater given to \<open>setPlf\<close> and \<open>setInstalled\<close> on mount: each property present in
  the loaded record replaces the previous value.
\<close>

definition restore :: "(source \<Rightarrow> jsnum option) \<Rightarrow> capacity \<Rightarrow> capacity" where
  "restore ls prev = (\<lambda>k. case ls k of Some v \<Rightarrow> safeNum (Num v) | None \<Rightarrow> prev k)"

text \<open>The \<open>try\<close> block of the asynchronous part of the mount effect, and its \<open>catch\<close>.\<close>

definition fetch_capacity :: "response \<Rightarrow> exn + capacity" where
  "fetch_capacity net =
     (case net of
        Rejected \<Rightarrow> Inl Error
      | Response ok body \<Rightarrow>
          if \<not> ok then Inl Error
          else (case body of
                  None \<Rightarrow> Inl Error
                | Some text \<Rightarrow>
                    (case parseCapacityCSV text of
                       None \<Rightarrow> Inl Error
                     | Some parsed \<Rightarrow> Inr parsed)))"

definition load_csv :: "response \<Rightarrow> state \<Rightarrow> state" where
  "load_csv net s =
     (case fetch_capacity net of
        Inr parsed \<Rightarrow> s\<lparr>installed := parsed, csvLoaded := True\<rparr>
      | Inl e \<Rightarrow> s\<lparr>csvLoaded := False\<rparr>)"

text \<open>
  The mount effect of \<open>RatedCapacity\<close>, with the state updates it schedules applied and
  the fetch it starts completed. The second component tells whether the capacity CSV
  was requested; \<open>net\<close> is what that request yields.
\<close>

definition mount :: "storage \<Rightarrow> response \<Rightarrow> state \<Rightarrow> state \<times> bool" where
  "mount st net s0 =
     (let s1 = (case loadLS st LS_PLF of
                  Some plfLS \<Rightarrow> s0\<lparr>plf := restore plfLS (plf s0)\<rparr>
                | None \<Rightarrow> s0)
      in case loadLS st LS_INSTALLED of
           Some instLS \<Rightarrow>
             (s1\<lparr>installed := restore instLS (installed s1), csvLoaded := True\<rparr>, False)
         | None \<Rightarrow> (load_csv net s1, True))"

text \<open>The two saving effects, run after a change of the records.\<close>

definition persist :: "state \<Rightarrow> storage \<Rightarrow> storage" where
  "persist s st = saveLS (saveLS st LS_INSTALLED (installed s)) LS_PLF (plf s)"

definition ratedBySource :: "capacity \<Rightarrow> capacity \<Rightarrow> capacity" where
  "ratedBySource inst p =
     (\<lambda>k. round2 (js_times (safeNum (Num (inst k))) (js_div (safeNum (Num (p k))) (Fin 100))))"

text \<open>The \<open>onChange\<close> handlers of the two rows of inputs.\<close>

definition setInstalled_onChange :: "source \<Rightarrow> string \<Rightarrow> state \<Rightarrow> state" where
  "setInstalled_onChange k v s = s\<lparr>installed := (installed s)(k := safeNum (Str v))\<rparr>"

definition setPlf_onChange :: "source \<Rightarrow> string \<Rightarrow> state \<Rightarrow> state" where
  "setPlf_onChange k v s =
     (let raw = safeNum (Str v);
          bounded = Math_min (Fin 100) (Math_max (Fin 0) raw)
      in s\<lparr>plf := (plf s)(k := bounded)\<rparr>)"


section \<open>The component of the second variant (src/unnamed/part_000)\<close>

text \<open>
  This variant has the same two records, restored and edited without coercion, and the
  historical ledger. Its records can hold any value that storage holds, so their
  properties are values, not numbers.
\<close>

definition INST_KEY :: string where
  "INST_KEY = ''ratedCapacity_installed''"

definition PLF_KEY :: string where
  "PLF_KEY = ''ratedCapacity_plf''"

definition safeNum0 :: "jsval \<Rightarrow> jsnum" where
  "safeNum0 x = (if isFinite (ToNumber x) then ToNumber x else Fin 0)"

subsection \<open>The CSV parser\<close>

text \<open>
  \<open>parseLine\<close>: the loop over the characters of a line, with the fields finished so far,
  the field being read and the quote state. A doubled quote adds one quote character
  and skips the second.
\<close>

fun parseLine_loop :: "string \<Rightarrow> string list \<Rightarrow> string \<Rightarrow> bool \<Rightarrow> string list" where
  "parseLine_loop [] out cur q = out @ [trim cur]"
| "parseLine_loop [c] out cur q =
     (if c = CHR 0x22 then parseLine_loop [] out cur (\<not> q)
      else if c = CHR '','' \<and> \<not> q then parseLine_loop [] (out @ [trim cur]) [] q
      else parseLine_loop [] out (cur @ [c]) q)"
| "parseLine_loop (c # d # l) out cur q =
     (if c = CHR 0x22 \<and> d = CHR 0x22 then parseLine_loop l out (cur @ [CHR 0x22]) q
      else if c = CHR 0x22 then parseLine_loop (d # l) out cur (\<not> q)
      else if c = CHR '','' \<and> \<not> q then parseLine_loop (d # l) (out @ [trim cur]) [] q
      else parseLine_loop (d # l) out (cur @ [c]) q)"

definition parseLine :: "string \<Rightarrow> string list" where
  "parseLine l = parseLine_loop l [] [] False"

text \<open>
  \<open>parseCSV\<close>: when no line is left after the empty ones are dropped, \<open>lines[0]\<close> is
  \<open>undefined\<close> and \<open>parseLine\<close> throws a TypeError on reading its length.
\<close>

definition parseCSV :: "string \<Rightarrow> exn + string list \<times> string list list" where
  "parseCSV text =
     (case filter (\<lambda>l. l \<noteq> []) (split_lines text) of
        [] \<Rightarrow> Inl TypeError
      | l0 # ls \<Rightarrow> Inr (parseLine l0, map parseLine ls))"

subsection \<open>Month keys\<close>

text \<open>
  The three regular expressions of \<open>normalizeMonth\<close>. A string of digits holds no
  separator, so \<open>^(\d{1,2})\/(\d{4})$\<close> matches exactly the strings that split at \<open>/\<close>
  into one or two digits and four digits; likewise for the other two, with three parts.
\<close>

definition digits_between :: "nat \<Rightarrow> nat \<Rightarrow> string \<Rightarrow> bool" where
  "digits_between lo hi s \<longleftrightarrow> lo \<le> length s \<and> length s \<le> hi \<and> list_all is_digit s"

definition match_month_year :: "string \<Rightarrow> (string \<times> string) option" where
  "match_month_year t =
     (case split_on CHR ''/'' t of
        [m, y] \<Rightarrow> if digits_between 1 2 m \<and> digits_between 4 4 y then Some (m, y) else None
      | _ \<Rightarrow> None)"

definition match_day_month_year :: "char \<Rightarrow> string \<Rightarrow> (string \<times> string \<times> string) option" where
  "match_day_month_year sep t =
     (case split_on sep t of
        [d, m, y] \<Rightarrow>
          if digits_between 1 2 d \<and> digits_between 1 2 m \<and> digits_between 4 4 y
          then Some (d, m, y) else None
      | _ \<Rightarrow> None)"

text \<open>
  The key built from a matched month and year: \<open>+m\<close> is the number the one or two
  digits denote, \<open>String\<close> prints it, \<open>padStart\<close> pads it to two characters.
\<close>

definition month_key :: "string \<Rightarrow> string \<Rightarrow> string" where
  "month_key m y = padStart 2 CHR ''0'' (String_nat (digits_val m)) @ ''/'' @ y"

text \<open>\<open>normalizeMonth\<close>: \<open>None\<close> is \<open>undefined\<close> or \<open>null\<close>, as argument and as result.\<close>

definition normalizeMonth :: "string option \<Rightarrow> string option" where
  "normalizeMonth input =
     (case input of
        None \<Rightarrow> None
      | Some s \<Rightarrow>
          if s = [] then None
          else
            let t = trim s in
            (case match_month_year t of
               Some (m, y) \<Rightarrow> Some (month_key m y)
             | None \<Rightarrow>
                 (case match_day_month_year CHR ''/'' t of
                    Some (d, m, y) \<Rightarrow> Some (month_key m y)
                  | None \<Rightarrow>
                      (case match_day_month_year CHR ''-'' t of
                         Some (d, m, y) \<Rightarrow> Some (month_key m y)
                       | None \<Rightarrow> None))))"

text \<open>
  \<open>compareMonth\<close>: the parts of \<open>a.split("/").map(Number)\<close>; a part that is missing is
  \<open>undefined\<close> (\<open>None\<close>), which is \<open>!==\<close> to every number and makes a difference NaN.
\<close>

definition month_parts :: "string \<Rightarrow> jsnum option \<times> jsnum option" where
  "month_parts a =
     (let ps = map StringToNumber (split_on CHR ''/'' a) in (nth_opt ps 0, nth_opt ps 1))"

definition number_of :: "jsnum option \<Rightarrow> jsnum" where
  "number_of x = (case x of Some n \<Rightarrow> n | None \<Rightarrow> NaN)"

definition strict_eq :: "jsnum option \<Rightarrow> jsnum option \<Rightarrow> bool" where
  "strict_eq x y =
     (case (x, y) of
        (Some a, Some b) \<Rightarrow> js_eq a b
      | (None, None) \<Rightarrow> True
      | _ \<Rightarrow> False)"

definition compareMonth :: "string \<Rightarrow> string \<Rightarrow> jsnum" where
  "compareMonth a b =
     (case (month_parts a, month_parts b) of
        ((am, ay), (bm, byr)) \<Rightarrow>
          if \<not> strict_eq ay byr then js_minus (number_of ay) (number_of byr)
          else js_minus (number_of am) (number_of bm))"

text \<open>
  \<open>String(n)\<close> on a number: NaN and the infinities have their names, and an integer
  below \<open>10^21\<close> in size is printed as its decimal digits, with its sign. The digits of
  the other numbers are not modelled: on them the result is \<open>None\<close>.
\<close>

definition Number_toString :: "jsnum \<Rightarrow> string option" where
  "Number_toString n =
     (case n of
        NaN \<Rightarrow> Some ''NaN''
      | PosInf \<Rightarrow> Some ''Infinity''
      | NegInf \<Rightarrow> Some ''-Infinity''
      | Fin x \<Rightarrow> if x = of_int \<lfloor>x\<rfloor> \<and> \<bar>x\<bar> < 10 ^ 21 then Some (String_int \<lfloor>x\<rfloor>) else None)"

text \<open>
  \<open>minusMonths\<close>. The loop \<open>while (n--)\<close> goes on as long as \<open>n\<close> is neither 0 nor NaN,
  so it does not end for every \<open>n\<close>: the loop function has the value \<open>None\<close> where it
  does not return. The year is \<open>undefined\<close> (\<open>None\<close>) when the key has no second part;
  \<open>yy--\<close> then makes it NaN. Of the result of \<open>minusMonths\<close>, the outer \<open>None\<close> is the loop
  not returning and the inner \<open>None\<close> a text whose digits are not modelled.
\<close>

partial_function (option) minusMonths_loop ::
  "jsnum \<Rightarrow> jsnum \<Rightarrow> jsnum option \<Rightarrow> (jsnum \<times> jsnum option) option" where
  "minusMonths_loop n mm yy =
     (if n = Fin 0 \<or> n = NaN then Some (mm, yy)
      else if js_eq (js_minus mm (Fin 1)) (Fin 0)
        then minusMonths_loop (js_minus n (Fin 1)) (Fin 12) (Some (js_minus (number_of yy) (Fin 1)))
        else minusMonths_loop (js_minus n (Fin 1)) (js_minus mm (Fin 1)) yy)"

definition month_text :: "jsnum \<Rightarrow> jsnum option \<Rightarrow> string option" where
  "month_text mm yy =
     (case (Number_toString mm,
            case yy of None \<Rightarrow> Some ''undefined'' | Some y \<Rightarrow> Number_toString y) of
        (Some a, Some b) \<Rightarrow> Some (padStart 2 CHR ''0'' a @ ''/'' @ b)
      | _ \<Rightarrow> None)"

definition minusMonths :: "string \<Rightarrow> jsnum \<Rightarrow> string option option" where
  "minusMonths m n =
     (case month_parts m of
        (mm, yy) \<Rightarrow>
          map_option (\<lambda>r. month_text (fst r) (snd r)) (minusMonths_loop n (number_of mm) yy))"

subsection \<open>The records\<close>

record entry =
  month :: string
  vals :: capacity

record state0 =
  installed0 :: "source \<Rightarrow> jsval"
  plf0 :: "source \<Rightarrow> jsval"
  history :: "entry list"
  err :: "string option"

text \<open>
  The initialiser of a record: zeros, over which \<open>Object.assign\<close> copies the properties
  of the parsed stored value; an exception leaves what has been built.
\<close>

definition Object_assign :: "(source \<Rightarrow> jsval) \<Rightarrow> jsval \<Rightarrow> (source \<Rightarrow> jsval)" where
  "Object_assign base v = (\<lambda>s. case own v (source_name s) of Some x \<Rightarrow> x | None \<Rightarrow> base s)"

definition init_record :: "storage \<Rightarrow> string \<Rightarrow> (source \<Rightarrow> jsval)" where
  "init_record st key =
     (let base = (\<lambda>s. Num (Fin 0)) in
      case getItem st key of
        Inl e \<Rightarrow> base
      | Inr None \<Rightarrow> base
      | Inr (Some raw) \<Rightarrow>
          if raw = Empty then base
          else (case JSON_parse raw of
                  Inl e \<Rightarrow> base
                | Inr v \<Rightarrow> Object_assign base v))"

definition initial_state0 :: "storage \<Rightarrow> state0" where
  "initial_state0 st =
     \<lparr>installed0 = init_record st INST_KEY, plf0 = init_record st PLF_KEY,
      history = [], err = None\<rparr>"

text \<open>The saving effect of a record; an exception of \<open>setItem\<close> is not caught here.\<close>

definition save_record :: "storage \<Rightarrow> string \<Rightarrow> (source \<Rightarrow> jsval) \<Rightarrow> exn + storage" where
  "save_record st key obj = setItem st key (JSON_stringify obj)"

text \<open>
  The rated capacities, computed at every render from the two records. The operands
  are whatever the records hold; the product and the quotient convert them to numbers,
  which throws a \<open>TypeError\<close> on a value that cannot be converted.
\<close>

definition rated :: "(source \<Rightarrow> jsval) \<Rightarrow> (source \<Rightarrow> jsval) \<Rightarrow> exn + capacity" where
  "rated inst p =
     (if \<exists>s \<in> set SOURCES. unconvertible (inst s) \<or> unconvertible (p s) then Inl TypeError
      else Inr (\<lambda>s. round2 (js_times (ToNumber (inst s)) (js_div (ToNumber (p s)) (Fin 100)))))"

text \<open>The \<open>onChange\<close> handlers: \<open>+e.target.value\<close> is the number the text converts to.\<close>

definition setInstalled0_onChange :: "source \<Rightarrow> string \<Rightarrow> state0 \<Rightarrow> state0" where
  "setInstalled0_onChange s v st = st\<lparr>installed0 := (installed0 st)(s := Num (ToNumber (Str v)))\<rparr>"

definition setPlf0_onChange :: "source \<Rightarrow> string \<Rightarrow> state0 \<Rightarrow> state0" where
  "setPlf0_onChange s v st = st\<lparr>plf0 := (plf0 st)(s := Num (ToNumber (Str v)))\<rparr>"

subsection \<open>The historical ledger\<close>

text \<open>
  \<open>Array.prototype.sort\<close> is stable and, for a consistent comparator, yields the sorted
  arrangement; inserting each element before the first one it does not follow computes
  it. A comparator result that is NaN counts as 0.
\<close>

fun insert_sorted :: "('a \<Rightarrow> 'a \<Rightarrow> jsnum) \<Rightarrow> 'a \<Rightarrow> 'a list \<Rightarrow> 'a list" where
  "insert_sorted cmp x [] = [x]"
| "insert_sorted cmp x (y # ys) =
     (if js_less (Fin 0) (cmp x y) then y # insert_sorted cmp x ys else x # y # ys)"

definition Array_sort :: "('a \<Rightarrow> 'a \<Rightarrow> jsnum) \<Rightarrow> 'a list \<Rightarrow> 'a list" where
  "Array_sort cmp xs = foldr (insert_sorted cmp) xs []"

text \<open>\<open>findIndex\<close> and \<open>indexOf\<close>: \<open>None\<close> is the result \<open>-1\<close>.\<close>

fun findIndex :: "('a \<Rightarrow> bool) \<Rightarrow> 'a list \<Rightarrow> nat option" where
  "findIndex P [] = None"
| "findIndex P (x # xs) = (if P x then Some 0 else map_option Suc (findIndex P xs))"

definition indexOf :: "string list \<Rightarrow> string \<Rightarrow> nat option" where
  "indexOf xs x = findIndex (\<lambda>y. y = x) xs"

definition cell :: "string list \<Rightarrow> nat \<Rightarrow> jsval" where
  "cell r i = (case nth_opt r i of Some x \<Rightarrow> Str x | None \<Rightarrow> Undefined)"

definition row_values :: "string list \<Rightarrow> string list \<Rightarrow> capacity" where
  "row_values header r =
     (\<lambda>s. case indexOf header (source_name s) of
             Some i \<Rightarrow> safeNum0 (cell r i)
           | None \<Rightarrow> Fin 0)"

text \<open>The loop over the rows: a row whose month does not normalise is skipped.\<close>

fun collect :: "string list \<Rightarrow> nat \<Rightarrow> string list list \<Rightarrow> entry list" where
  "collect header mIdx [] = []"
| "collect header mIdx (r # rows) =
     (case normalizeMonth (nth_opt r mIdx) of
        None \<Rightarrow> collect header mIdx rows
      | Some mk \<Rightarrow> \<lparr>month = mk, vals = row_values header r\<rparr> # collect header mIdx rows)"

text \<open>
  The \<open>try\<close> block of the effect that loads the ledger. The first \<open>fetch\<close> either is
  rejected or yields a response, which is truthy, so the second \<open>fetch\<close> never runs.
\<close>

definition load_history :: "response \<Rightarrow> exn + entry list" where
  "load_history net =
     (case net of
        Rejected \<Rightarrow> Inl Error
      | Response ok body \<Rightarrow>
          if \<not> ok then Inl Error
          else (case body of
                  None \<Rightarrow> Inl Error
                | Some txt \<Rightarrow>
                    (case parseCSV txt of
                       Inl e \<Rightarrow> Inl e
                     | Inr (header, rows) \<Rightarrow>
                         (case findIndex (\<lambda>h. toLowerCase (trim h) = ''month'') header of
                            None \<Rightarrow> Inl Error
                          | Some mIdx \<Rightarrow>
                              Inr (Array_sort (\<lambda>a b. compareMonth (month a) (month b))
                                     (collect header mIdx rows))))))"

text \<open>The advisory text (its dash is an en dash in the source).\<close>

definition not_loaded :: string where
  "not_loaded = ''capacity.csv not loaded - ensure /public/data/capacity.csv exists with Month + source columns.''"

definition history_effect :: "response \<Rightarrow> state0 \<Rightarrow> state0" where
  "history_effect net st =
     (case load_history net of
        Inr data \<Rightarrow> st\<lparr>history := data\<rparr>
      | Inl e \<Rightarrow> st\<lparr>err := Some not_loaded\<rparr>)"

text \<open>
  The range of months compared. \<open>start\<close> and \<open>end\<close> are initialised at the first render,
  when the ledger is empty, to the empty string and to \<open>undefined\<close> (\<open>None\<close>). The effect
  that keeps the start before the end calls \<open>compareMonth\<close> on them, which splits both
  its arguments and so throws a \<open>TypeError\<close> on \<open>undefined\<close>; its result is the new start.
\<close>

definition range_effect :: "string \<Rightarrow> string option \<Rightarrow> exn + string" where
  "range_effect start stop =
     (case stop of
        None \<Rightarrow> Inl TypeError
      | Some e \<Rightarrow> Inr (if js_less (Fin 0) (compareMonth start e) then e else start))"


section \<open>Predicates of the properties\<close>

text \<open>A record all of whose eight values are finite numbers.\<close>

definition finite_record :: "capacity \<Rightarrow> bool" where
  "finite_record c = list_all (\<lambda>k. isFinite (c k)) SOURCES"

text \<open>The capacity CSV of the scenario in the specification.\<close>

definition capacity_csv_scenario :: string where
  "capacity_csv_scenario =
     ''Coal,Oil & Gas,Nuclear,Hydro,Solar,Wind,Small-Hydro,Bio Power'' @ [CHR 0x0A]
       @ ''50,10,8,5,20,15,2,3''"

text \<open>
  A month key is two digits, a slash and four digits. \<open>key_month\<close> and \<open>key_year\<close> are
  the numbers its two parts denote, and \<open>month_le\<close> orders keys by year, then month.
\<close>

definition is_month_key :: "string \<Rightarrow> bool" where
  "is_month_key k \<longleftrightarrow>
     length k = 7 \<and> list_all is_digit (take 2 k) \<and> k ! 2 = CHR ''/'' \<and> list_all is_digit (drop 3 k)"

definition key_month :: "string \<Rightarrow> nat" where
  "key_month k = digits_val (take 2 k)"

definition key_year :: "string \<Rightarrow> nat" where
  "key_year k = digits_val (drop 3 k)"

definition month_le :: "string \<Rightarrow> string \<Rightarrow> bool" where
  "month_le a b \<longleftrightarrow>
     key_year a < key_year b \<or> (key_year a = key_year b \<and> key_month a \<le> key_month b)"

text \<open>
  The shapes of a date: groups of digits of given lengths between separators.
  \<open>accepted_shape\<close> follows the words of the specification, which lists five shapes;
  in them \<open>MM\<close> and \<open>DD\<close> are two digits, \<open>M\<close> and \<open>D\<close> one or two, and \<open>YYYY\<close> four.
  \<open>code_shape\<close> is what the three regular expressions accept after trimming.
\<close>

definition shape :: "nat list \<Rightarrow> char \<Rightarrow> string \<Rightarrow> bool" where
  "shape ns sep s \<longleftrightarrow>
     map length (split_on sep s) = ns \<and> list_all (list_all is_digit) (split_on sep s)"

definition accepted_shape :: "string \<Rightarrow> bool" where
  "accepted_shape s \<longleftrightarrow>
     list_ex (\<lambda>a. shape [a, 4] CHR ''/'' s) [1, 2]
     \<or> list_ex (\<lambda>a. list_ex (\<lambda>b. shape [a, b, 4] CHR ''/'' s) [1, 2]) [1, 2]
     \<or> shape [2, 2, 4] CHR ''-'' s"

definition code_shape :: "string \<Rightarrow> bool" where
  "code_shape s \<longleftrightarrow>
     list_ex (\<lambda>a. shape [a, 4] CHR ''/'' (trim s)) [1, 2]
     \<or> list_ex (\<lambda>sep. list_ex (\<lambda>a. list_ex (\<lambda>b. shape [a, b, 4] sep (trim s)) [1, 2]) [1, 2])
          [CHR ''/'', CHR ''-'']"

text \<open>
  A header has a month column when one of its names, trimmed and in lower case, is
  \<open>month\<close>.
\<close>

definition has_month_column :: "string list \<Rightarrow> bool" where
  "has_month_column header \<longleftrightarrow> list_ex (\<lambda>h. toLowerCase (trim h) = ''month'') header"

text \<open>The historical CSV of the scenario in the specification, with one source column.\<close>

definition history_csv_scenario :: string where
  "history_csv_scenario =
     ''Month,Coal'' @ [CHR 0x0A] @ ''01/2023,1'' @ [CHR 0x0A] @ ''31/12/2022,2'' @ [CHR 0x0A]
       @ ''13-01-2023,3''"

text \<open>
  Going back months, in the words of the specification: the month counter is
  decremented, and whenever it drops below 1 it wraps to 12 and the year is
  decremented. \<open>key_text\<close> prints a month and a year as \<open>minusMonths\<close> does, the month
  padded to two characters.
\<close>

fun months_before :: "nat \<Rightarrow> int \<times> int \<Rightarrow> int \<times> int" where
  "months_before 0 (mm, yy) = (mm, yy)"
| "months_before (Suc n) (mm, yy) =
     (if mm - 1 < 1 then months_before n (12, yy - 1) else months_before n (mm - 1, yy))"

definition key_text :: "int \<times> int \<Rightarrow> string" where
  "key_text p = padStart 2 CHR ''0'' (String_int (fst p)) @ ''/'' @ String_int (snd p)"

section \<open>Rounding to a double\<close>

text \<open>
  The exponent computed by \<open>ilog2\<close> is the binary exponent, so that in the normal range
  \<open>fl\<close> rounds to a multiple of \<open>2^(e - 52)\<close>; integers below \<open>2^53\<close> in size are
  doubles.
\<close>

lemma round_even_of_int: "round_even (of_int n) = n"
  by (simp add: round_even_def)

lemma pow2_pos: "0 < pow2 e"
  by (simp add: pow2_def)

lemma pow2_Suc: "pow2 (e + 1) = 2 * pow2 e"
proof (cases "0 \<le> e")
  case True
  then show ?thesis by (simp add: pow2_def nat_add_distrib)
next
  case False
  then have "nat (- e) = Suc (nat (- (e + 1)))" by simp
  with False show ?thesis by (auto simp add: pow2_def)
qed

lemma floorlog_2_eqI: "2 ^ k \<le> n \<Longrightarrow> n < 2 ^ Suc k \<Longrightarrow> floorlog 2 n = Suc k"
  by (meson floorlog_leI floorlog_ge_SucI le_antisym one_less_numeral_iff semiring_norm(76) zero_le)

lemma ilog2_ge1:
  assumes "2 ^ k \<le> x" "x < 2 ^ Suc k"
  shows "ilog2 x = int k"
proof -
  have x1: "1 \<le> x" using assms(1) by (meson one_le_numeral one_le_power order_trans)
  have "(of_int (2 ^ k) :: rat) \<le> x" using assms(1) by simp
  then have a: "2 ^ k \<le> \<lfloor>x\<rfloor>" by (simp only: le_floor_iff)
  have "x < of_int (2 ^ Suc k)" using assms(2) by simp
  then have b: "\<lfloor>x\<rfloor> < 2 ^ Suc k" by (simp only: floor_less_iff)
  have "(0::int) \<le> 2 ^ k" by simp
  then have "0 \<le> \<lfloor>x\<rfloor>" using a by linarith
  have "2 ^ k \<le> nat \<lfloor>x\<rfloor>" using a \<open>0 \<le> \<lfloor>x\<rfloor>\<close> by (simp add: le_nat_iff)
  moreover have "nat \<lfloor>x\<rfloor> < 2 ^ Suc k" using b \<open>0 \<le> \<lfloor>x\<rfloor>\<close> by (simp add: nat_less_iff)
  ultimately have "floorlog 2 (nat \<lfloor>x\<rfloor>) = Suc k" by (rule floorlog_2_eqI)
  with x1 show ?thesis by (simp add: ilog2_def)
qed

lemma ilog2_lt1:
  assumes "1 / 2 ^ Suc k \<le> x" "x < 1 / 2 ^ k"
  shows "ilog2 x = - int (Suc k)"
proof -
  have "(0::rat) < 1 / 2 ^ Suc k" by simp
  then have xpos: "0 < x" using assms(1) by linarith
  have "1 / (2::rat) ^ k \<le> 1" by (simp add: divide_le_eq)
  then have x1: "\<not> 1 \<le> x" using assms(2) by linarith
  have r1: "2 ^ k < 1 / x" using assms(2) xpos by (simp add: field_simps)
  have r2: "1 / x \<le> 2 ^ Suc k" using assms(1) xpos by (simp add: field_simps)
  have "of_int (2 ^ k) < 1 / x" using r1 by simp
  then have a: "2 ^ k < \<lceil>1 / x\<rceil>" by (simp only: less_ceiling_iff)
  have "1 / x \<le> of_int (2 ^ Suc k)" using r2 by simp
  then have b: "\<lceil>1 / x\<rceil> \<le> 2 ^ Suc k" by (simp only: ceiling_le_iff)
  have "2 ^ k \<le> nat (\<lceil>1 / x\<rceil> - 1)" using a by (simp add: le_nat_iff)
  moreover have "nat (\<lceil>1 / x\<rceil> - 1) < 2 ^ Suc k"
  proof -
    have "(0::int) < 2 ^ k" by simp
    then have "0 \<le> \<lceil>1 / x\<rceil> - 1" using a by linarith
    moreover have "\<lceil>1 / x\<rceil> - 1 < int (2 ^ Suc k)" using b by simp
    ultimately show ?thesis by (simp only: nat_less_iff)
  qed
  ultimately have "floorlog 2 (nat (\<lceil>1 / x\<rceil> - 1)) = Suc k" by (rule floorlog_2_eqI)
  with x1 show ?thesis by (simp add: ilog2_def)
qed

lemma ilog2_pow2:
  assumes "pow2 e \<le> x" "x < pow2 (e + 1)"
  shows "ilog2 x = e"
proof (cases "0 \<le> e")
  case True
  then have "2 ^ nat e \<le> x" "x < 2 ^ Suc (nat e)"
    using assms by (simp_all add: pow2_def nat_add_distrib)
  then have "ilog2 x = int (nat e)" by (rule ilog2_ge1)
  with True show ?thesis by simp
next
  case False
  define k where "k = nat (- e - 1)"
  have e: "e = - int (Suc k)" using False by (simp add: k_def)
  have ne: "nat (- e) = Suc k" using False by (simp add: k_def)
  have p: "pow2 e = 1 / 2 ^ Suc k" using False by (simp add: pow2_def ne)
  moreover have "pow2 (e + 1) = 1 / 2 ^ k" using pow2_Suc[of e] p by simp
  ultimately have "1 / 2 ^ Suc k \<le> x" "x < 1 / 2 ^ k" using assms by simp_all
  then have "ilog2 x = - int (Suc k)" by (rule ilog2_lt1)
  with e show ?thesis by simp
qed

lemma fl_normal:
  assumes "pow2 e \<le> \<bar>x\<bar>" "\<bar>x\<bar> < pow2 (e + 1)" "- 1022 \<le> e" "e \<le> 1022"
  shows "fl x = Fin (sgn x * of_int (round_even (\<bar>x\<bar> / pow2 (e - 52))) * pow2 (e - 52))"
proof -
  have "x \<noteq> 0" using assms(1) pow2_pos[of e] by auto
  moreover have "ilog2 \<bar>x\<bar> = e" using assms(1,2) by (rule ilog2_pow2)
  ultimately show ?thesis using assms(3,4) by (simp add: fl_def Let_def max_def)
qed

lemma floor_rat_numeral: "\<lfloor>(numeral a :: rat) / numeral b\<rfloor> = numeral a div numeral b"
  using floor_divide_of_int_eq[of "numeral a" "numeral b", where ?'a = rat] by simp

lemma pow2_neg: "pow2 (- int j) = 1 / 2 ^ j"
  by (auto simp add: pow2_def)

lemma pow2_nat: "pow2 (int k) = 2 ^ k"
  by (simp add: pow2_def)

lemma fl_of_int:
  assumes "\<bar>n\<bar> < 2 ^ 53"
  shows "fl (of_int n) = Fin (of_int n)"
proof (cases "n = 0")
  case True
  then show ?thesis by (simp add: fl_def)
next
  case False
  define a where "a = nat \<bar>n\<bar>"
  have a0: "0 < a" using False by (simp add: a_def)
  define k where "k = floorlog 2 a - 1"
  have lo: "2 ^ k \<le> a" and hi: "a < 2 ^ Suc k"
    using floorlog_bounds[of a 2] a0 floorlog_eq_zero_iff[of 2 a]
    by (auto simp add: k_def)
  have "a < 2 ^ 53" using assms by (simp add: a_def nat_less_iff)
  with lo have "(2::nat) ^ k < 2 ^ 53" by linarith
  then have "k < 53" by (rule power_less_imp_less_exp[rotated]) simp
  then have k52: "k \<le> 52" by simp
  have abs: "\<bar>of_int n :: rat\<bar> = of_nat a" by (simp add: a_def)
  have b1: "pow2 (int k) \<le> \<bar>of_int n :: rat\<bar>"
    unfolding abs pow2_nat using lo by (metis of_nat_le_iff of_nat_numeral of_nat_power)
  have b2: "\<bar>of_int n :: rat\<bar> < pow2 (int k + 1)"
  proof -
    have "(of_nat a :: rat) < of_nat (2 ^ Suc k)" using hi by (simp only: of_nat_less_iff)
    then show ?thesis unfolding abs pow2_Suc pow2_nat by simp
  qed
  have e: "int k - 52 = - int (52 - k)" using k52 by simp
  have sc: "\<bar>of_int n :: rat\<bar> / pow2 (int k - 52) = of_int (int a * 2 ^ (52 - k))"
    unfolding abs e pow2_neg by simp
  have "fl (of_int n) =
      Fin (sgn (of_int n) * of_int (round_even (\<bar>of_int n :: rat\<bar> / pow2 (int k - 52))) * pow2 (int k - 52))"
    using b1 b2 k52 by (intro fl_normal) simp_all
  also have "\<dots> = Fin (sgn (of_int n) * of_int (int a * 2 ^ (52 - k)) * pow2 (int k - 52))"
    by (simp only: sc round_even_of_int)
  also have "\<dots> = Fin (sgn (of_int n) * of_nat a)"
    unfolding e pow2_neg by simp
  also have "\<dots> = Fin (of_int n)"
    unfolding abs[symmetric] by (simp add: sgn_mult_abs)
  finally show ?thesis .
qed

lemma fl_of_nat: "n < 2 ^ 53 \<Longrightarrow> fl (of_nat n) = Fin (of_nat n)"
  using fl_of_int[of "int n"] by simp

section \<open>The CSV parser returns when a line is left\<close>

lemma dropWhile_id: "xs = [] \<or> \<not> P (hd xs) \<Longrightarrow> dropWhile P xs = xs"
  by (cases xs) auto

lemma trim_idem: "trim (trim s) = trim s"
proof -
  define t where "t = dropWhile is_ws s"
  define u where "u = rev (dropWhile is_ws (rev t))"
  have t: "t = [] \<or> \<not> is_ws (hd t)"
    unfolding t_def by (metis hd_dropWhile)
  have "rev t = takeWhile is_ws (rev t) @ dropWhile is_ws (rev t)" by simp
  then have "t = u @ rev (takeWhile is_ws (rev t))"
    unfolding u_def by (metis rev_append rev_rev_ident)
  then have "u = [] \<or> hd u = hd t" by (metis hd_append2)
  moreover have "u \<noteq> [] \<Longrightarrow> t \<noteq> []" unfolding u_def by auto
  ultimately have "u = [] \<or> \<not> is_ws (hd u)" using t by metis
  then have a: "dropWhile is_ws u = u" by (rule dropWhile_id)
  have "rev u = [] \<or> \<not> is_ws (hd (rev u))"
    unfolding u_def by (metis hd_dropWhile rev_rev_ident)
  then have b: "dropWhile is_ws (rev u) = rev u" by (rule dropWhile_id)
  have "trim u = u" by (simp add: trim_def a b)
  then show ?thesis by (simp add: trim_def u_def t_def)
qed

lemma parseLine_loop_fields:
  "f \<in> set (parseLine_loop l out cur q) \<Longrightarrow> f \<in> set out \<or> f \<in> range trim"
proof (induction l out cur q rule: parseLine_loop.induct)
  case (1 out cur q)
  then show ?case by auto
next
  case (2 c out cur q)
  then show ?case by (auto split: if_splits)
next
  case (3 c d l out cur q)
  show ?case
  proof (cases "c = CHR 0x22 \<and> d = CHR 0x22")
    case True
    with 3 show ?thesis by simp
  next
    case False
    note nq = this
    show ?thesis
    proof (cases "c = CHR 0x22")
      case True
      with 3 nq show ?thesis by simp
    next
      case False
      note nc = this
      show ?thesis
      proof (cases "c = CHR '','' \<and> \<not> q")
        case True
        with 3 nq nc have "f \<in> set (out @ [trim cur]) \<or> f \<in> range trim" by simp
        then show ?thesis by auto
      next
        case False
        with 3 nq nc show ?thesis by simp
      qed
    qed
  qed
qed

lemma parseLine_trimmed: "f \<in> set (parseLine l) \<Longrightarrow> trim f = f"
  using parseLine_loop_fields[of f l "[]" "[]" False] by (auto simp add: parseLine_def trim_idem)

text \<open>
  C10. \<open>parseCSV\<close> returns a header and rows of trimmed fields for every text that has
  a non-empty line; for a text all of whose lines are empty, the empty text among them,
  it throws the TypeError of reading the length of \<open>lines[0]\<close>.
\<close>

theorem parseCSV_returns_iff_nonempty_line:
  "((\<exists>l \<in> set (split_lines text). l \<noteq> []) \<longrightarrow>
      (\<exists>header rows. parseCSV text = Inr (header, rows) \<and>
         (\<forall>f \<in> set header. trim f = f) \<and> (\<forall>r \<in> set rows. \<forall>f \<in> set r. trim f = f)))
   \<and> ((\<forall>l \<in> set (split_lines text). l = []) \<longrightarrow> parseCSV text = Inl TypeError)
   \<and> parseCSV [] = Inl TypeError"
proof (intro conjI impI)
  assume "\<exists>l \<in> set (split_lines text). l \<noteq> []"
  then have "filter (\<lambda>l. l \<noteq> []) (split_lines text) \<noteq> []"
    by (simp add: filter_empty_conv)
  then obtain l0 ls where ls: "filter (\<lambda>l. l \<noteq> []) (split_lines text) = l0 # ls"
    by (cases "filter (\<lambda>l. l \<noteq> []) (split_lines text)") auto
  then have "parseCSV text = Inr (parseLine l0, map parseLine ls)"
    by (simp add: parseCSV_def)
  moreover have "\<forall>f \<in> set (parseLine l0). trim f = f"
    by (simp add: parseLine_trimmed)
  moreover have "\<forall>r \<in> set (map parseLine ls). \<forall>f \<in> set r. trim f = f"
    by (auto simp add: parseLine_trimmed)
  ultimately show "\<exists>header rows. parseCSV text = Inr (header, rows) \<and>
         (\<forall>f \<in> set header. trim f = f) \<and> (\<forall>r \<in> set rows. \<forall>f \<in> set r. trim f = f)"
    by blast
next
  assume "\<forall>l \<in> set (split_lines text). l = []"
  then have "filter (\<lambda>l. l \<noteq> []) (split_lines text) = []"
    by (simp add: filter_empty_conv)
  then show "parseCSV text = Inl TypeError" by (simp add: parseCSV_def)
next
  show "parseCSV [] = Inl TypeError" by (simp add: parseCSV_def)
qed

theorem parseCSV_returns_witness:
  "(\<exists>l \<in> set (split_lines (''Month,Coal'' @ [CHR 0x0A] @ ''01/2023, 5'')). l \<noteq> [])
   \<and> (\<exists>header rows. parseCSV (''Month,Coal'' @ [CHR 0x0A] @ ''01/2023, 5'') = Inr (header, rows) \<and>
         (\<forall>f \<in> set header. trim f = f) \<and> (\<forall>r \<in> set rows. \<forall>f \<in> set r. trim f = f))
   \<and> split_lines [CHR 0x0A, CHR 0x0A] = [[], [], []]
   \<and> parseCSV [CHR 0x0A, CHR 0x0A] = Inl TypeError"
proof -
  have a: "\<exists>l \<in> set (split_lines (''Month,Coal'' @ [CHR 0x0A] @ ''01/2023, 5'')). l \<noteq> []"
    by simp
  have b: "split_lines [CHR 0x0A, CHR 0x0A] = [[], [], []]"
    by simp
  then have c: "\<forall>l \<in> set (split_lines [CHR 0x0A, CHR 0x0A]). l = []"
    by simp
  show ?thesis
    using a b c parseCSV_returns_iff_nonempty_line[of "''Month,Coal'' @ [CHR 0x0A] @ ''01/2023, 5''"]
      parseCSV_returns_iff_nonempty_line[of "[CHR 0x0A, CHR 0x0A]"]
    by blast
qed

section \<open>Rated capacity\<close>

lemma fl_eval:
  assumes "pow2 e \<le> \<bar>x\<bar>" "\<bar>x\<bar> < pow2 (e + 1)" "- 1022 \<le> e" "e \<le> 1022"
    and "sgn x * of_int (round_even (\<bar>x\<bar> / pow2 (e - 52))) * pow2 (e - 52) = y"
  shows "fl x = Fin y"
  using fl_normal[OF assms(1-4)] assms(5) by simp

lemmas fl_eval_simps = pow2_def round_even_def Let_def floor_rat_numeral

text \<open>The doubles met when 195 and 22.9 are entered.\<close>

lemma fl_22_9: "fl (229 / 10) = Fin (3222888483337011 / 140737488355328)"
  by (rule fl_eval[where e = 4]) (simp_all add: fl_eval_simps)

lemma plf_fraction:
  "js_div (Fin (3222888483337011 / 140737488355328)) (Fin 100) = Fin (2062648629335687 / 9007199254740992)"
  apply simp
  apply (rule fl_eval[where e = "- 3"])
  apply (simp_all add: fl_eval_simps)
  done

lemma code_product:
  "js_times (Fin 195) (Fin (2062648629335687 / 9007199254740992)) = Fin (6284632542507171 / 140737488355328)"
  apply simp
  apply (rule fl_eval[where e = "5"])
  apply (simp_all add: fl_eval_simps)
  done

lemma code_cents:
  "js_times (Fin (6284632542507171 / 140737488355328)) (Fin 100) = Fin (4909869173833727 / 1099511627776)"
  apply simp
  apply (rule fl_eval[where e = "12"])
  apply (simp_all add: fl_eval_simps)
  done

lemma cents_4465:
  "js_div (Fin 4465) (Fin 100) = Fin (6283928855065395 / 140737488355328)"
  apply simp
  apply (rule fl_eval[where e = "5"])
  apply (simp_all add: fl_eval_simps)
  done

lemma spec_product:
  "js_times (Fin 195) (Fin (3222888483337011 / 140737488355328)) = Fin (8931 / 2)"
  apply simp
  apply (rule fl_eval[where e = "12"])
  apply (simp_all add: fl_eval_simps)
  done

lemma spec_quotient:
  "js_div (Fin (8931 / 2)) (Fin 100) = Fin (1571158135626793 / 35184372088832)"
  apply simp
  apply (rule fl_eval[where e = "5"])
  apply (simp_all add: fl_eval_simps)
  done

lemma spec_cents:
  "js_times (Fin (1571158135626793 / 35184372088832)) (Fin 100) = Fin (8931 / 2)"
  apply simp
  apply (rule fl_eval[where e = "12"])
  apply (simp_all add: fl_eval_simps)
  done

lemma cents_4466:
  "js_div (Fin 4466) (Fin 100) = Fin (1571334057487237 / 35184372088832)"
  apply simp
  apply (rule fl_eval[where e = "5"])
  apply (simp_all add: fl_eval_simps)
  done

lemma round2_code:
  "round2 (Fin (6284632542507171 / 140737488355328)) = Fin (6283928855065395 / 140737488355328)"
  by (simp add: round2_def code_cents cents_4465 floor_rat_numeral del: js_times.simps js_div.simps)

lemma round2_spec:
  "round2 (Fin (1571158135626793 / 35184372088832)) = Fin (1571334057487237 / 35184372088832)"
  by (simp add: round2_def spec_cents cents_4466 floor_rat_numeral del: js_times.simps js_div.simps)

lemmas parse_number_simps =
  StringToNumber_def trim_def is_ws_def NonDecimalIntegerLiteral_def StrDecimalLiteral_def
  StrUnsignedDecimalLiteral_def ExponentPart_def is_digit_def digits_val_def radix_val_def
  digit_val_def pow10_def Let_def

lemma Number_195: "StringToNumber ''195'' = Fin 195"
proof -
  have "fl 195 = Fin 195" using fl_of_nat[of 195] by simp
  then show ?thesis by (simp add: parse_number_simps)
qed

lemma Number_22_9: "StringToNumber ''22.9'' = Fin (3222888483337011 / 140737488355328)"
  using fl_22_9 by (simp add: parse_number_simps)

lemma safeNum_Num: "isFinite x \<Longrightarrow> safeNum (Num x) = x"
  by (simp add: safeNum_def)

lemma safeNum_Str: "safeNum (Str v) = (if isFinite (StringToNumber v) then StringToNumber v else Fin 0)"
proof -
  have "trim (trim v) = trim v" by (rule trim_idem)
  then have "StringToNumber (trim v) = StringToNumber v" by (simp add: StringToNumber_def)
  then show ?thesis by (simp add: safeNum_def)
qed

text \<open>
  C1, as stated, fails. With 195 entered as installed capacity of coal and 22.9 as its
  PLF, the component computes \<open>round2(195 * (22.9 / 100))\<close>: the product is the double
  44.654999999999994, its hundredfold 4465.499999999999, and the rated capacity 44.65.
  The formula of the claim, \<open>round2(195 * 22.9 / 100)\<close>, passes through 4465.5 and
  44.655 and gives 44.66.
\<close>

theorem rated_capacity_counterexample:
  "ratedBySource
      (installed (setPlf_onChange Coal ''22.9'' (setInstalled_onChange Coal ''195'' initial_state)))
      (plf (setPlf_onChange Coal ''22.9'' (setInstalled_onChange Coal ''195'' initial_state))) Coal
     = Fin (6283928855065395 / 140737488355328)
   \<and> round2 (js_div
        (js_times
           (installed (setPlf_onChange Coal ''22.9'' (setInstalled_onChange Coal ''195'' initial_state)) Coal)
           (plf (setPlf_onChange Coal ''22.9'' (setInstalled_onChange Coal ''195'' initial_state)) Coal))
        (Fin 100))
     = Fin (1571334057487237 / 35184372088832)
   \<and> js_div (Fin 4465) (Fin 100) = Fin (6283928855065395 / 140737488355328)
   \<and> js_div (Fin 4466) (Fin 100) = Fin (1571334057487237 / 35184372088832)"
proof -
  let ?s = "setPlf_onChange Coal ''22.9'' (setInstalled_onChange Coal ''195'' initial_state)"
  have i: "installed ?s Coal = Fin 195"
    by (simp add: setPlf_onChange_def setInstalled_onChange_def safeNum_Str Number_195)
  have p: "plf ?s Coal = Fin (3222888483337011 / 140737488355328)"
    by (simp add: setPlf_onChange_def setInstalled_onChange_def safeNum_Str Number_22_9
        Math_min_def Math_max_def)
  have code: "ratedBySource (installed ?s) (plf ?s) Coal = Fin (6283928855065395 / 140737488355328)"
    by (simp add: ratedBySource_def i p safeNum_Num plf_fraction code_product round2_code
        del: js_times.simps js_div.simps)
  have spec: "round2 (js_div (js_times (installed ?s Coal) (plf ?s Coal)) (Fin 100))
      = Fin (1571334057487237 / 35184372088832)"
    by (simp add: i p spec_product spec_quotient round2_spec del: js_times.simps js_div.simps)
  show ?thesis using code spec cents_4465 cents_4466 by (simp del: js_times.simps js_div.simps)
qed

lemma round2_Fin:
  assumes "js_times n (Fin 100) = Fin c"
  shows "round2 n = fl (of_int \<lfloor>c + 1 / 2\<rfloor> / 100)"
  using assms by (simp add: round2_def)

lemma round2_not_finite:
  assumes "\<not> isFinite (js_times n (Fin 100))"
  shows "round2 n = js_times n (Fin 100)"
  using assms by (cases "js_times n (Fin 100)") (simp_all add: round2_def)

lemma SOURCES_all: "k \<in> set SOURCES"
  by (cases k) (simp_all add: SOURCES_def)

lemma rated_TypeError:
  "rated inst p = Inl TypeError \<longleftrightarrow> (\<exists>s. unconvertible (inst s) \<or> unconvertible (p s))"
  by (auto simp add: rated_def SOURCES_all)

lemma rated_Inr:
  assumes "\<forall>s. \<not> unconvertible (inst s) \<and> \<not> unconvertible (p s)"
  shows "rated inst p
    = Inr (\<lambda>s. round2 (js_times (ToNumber (inst s)) (js_div (ToNumber (p s)) (Fin 100))))"
  using assms by (simp add: rated_def)

lemma persist_Store:
  "persist st (Store m)
    = Store (m(LS_INSTALLED \<mapsto> JSON_stringify (\<lambda>k. Num (installed st k)),
              LS_PLF \<mapsto> JSON_stringify (\<lambda>k. Num (plf st k))))"
  by (simp add: persist_def saveLS_def)

text \<open>
  C1, amended. The rated capacity of a source is \<open>round2(installed * (plf / 100))\<close>,
  evaluated in this order in the arithmetic of doubles. The first variant applies
  \<open>safeNum\<close> to both operands, which leaves finite numbers as they are; the second
  converts both to numbers and throws a \<open>TypeError\<close> exactly when a record holds a value
  that cannot be converted. \<open>round2 n\<close> is \<open>Math.round(n * 100) / 100\<close>: when \<open>n * 100\<close> is
  a finite double \<open>c\<close>, it is the double nearest to \<open>k / 100\<close> for the integer \<open>k\<close> with
  \<open>c - 1/2 < k \<le> c + 1/2\<close>; when \<open>n * 100\<close> is NaN or an infinity, it is that value.
  The rated capacities are a function of the two records; the saving effects write the
  two records under their two keys and nothing else.
\<close>

theorem rated_capacity_formula:
  "(rated inst p = Inl TypeError \<longleftrightarrow> (\<exists>s. unconvertible (inst s) \<or> unconvertible (p s)))
   \<and> ((\<forall>s. \<not> unconvertible (inst s) \<and> \<not> unconvertible (p s)) \<longrightarrow>
        rated inst p
          = Inr (\<lambda>s. round2 (js_times (ToNumber (inst s)) (js_div (ToNumber (p s)) (Fin 100)))))
   \<and> ratedBySource i q k
        = round2 (js_times (safeNum (Num (i k))) (js_div (safeNum (Num (q k))) (Fin 100)))
   \<and> (isFinite (i k) \<and> isFinite (q k) \<longrightarrow>
        ratedBySource i q k = round2 (js_times (i k) (js_div (q k) (Fin 100))))
   \<and> (js_times n (Fin 100) = Fin c \<longrightarrow>
        round2 n = fl (of_int \<lfloor>c + 1 / 2\<rfloor> / 100) \<and>
        rat_of_int \<lfloor>c + 1 / 2\<rfloor> \<le> c + 1 / 2 \<and> c - 1 / 2 < rat_of_int \<lfloor>c + 1 / 2\<rfloor>)
   \<and> (\<not> isFinite (js_times n (Fin 100)) \<longrightarrow> round2 n = js_times n (Fin 100))
   \<and> persist st (Store m)
        = Store (m(LS_INSTALLED \<mapsto> JSON_stringify (\<lambda>k. Num (installed st k)),
                  LS_PLF \<mapsto> JSON_stringify (\<lambda>k. Num (plf st k))))
   \<and> save_record (Store m) key obj = Inr (Store (m(key \<mapsto> JSON_stringify obj)))"
proof (intro conjI impI)
  show "rated inst p = Inl TypeError \<longleftrightarrow> (\<exists>s. unconvertible (inst s) \<or> unconvertible (p s))"
    by (rule rated_TypeError)
next
  assume "\<forall>s. \<not> unconvertible (inst s) \<and> \<not> unconvertible (p s)"
  then show "rated inst p
      = Inr (\<lambda>s. round2 (js_times (ToNumber (inst s)) (js_div (ToNumber (p s)) (Fin 100))))"
    by (rule rated_Inr)
next
  show "ratedBySource i q k
      = round2 (js_times (safeNum (Num (i k))) (js_div (safeNum (Num (q k))) (Fin 100)))"
    by (simp add: ratedBySource_def)
next
  assume "isFinite (i k) \<and> isFinite (q k)"
  then show "ratedBySource i q k = round2 (js_times (i k) (js_div (q k) (Fin 100)))"
    by (simp add: ratedBySource_def safeNum_Num)
next
  assume "js_times n (Fin 100) = Fin c"
  then show "round2 n = fl (of_int \<lfloor>c + 1 / 2\<rfloor> / 100)" by (rule round2_Fin)
next
  show "rat_of_int \<lfloor>c + 1 / 2\<rfloor> \<le> c + 1 / 2" by (rule of_int_floor_le)
next
  have "c + 1 / 2 < rat_of_int \<lfloor>c + 1 / 2\<rfloor> + 1" using floor_correct[of "c + 1 / 2"] by simp
  then show "c - 1 / 2 < rat_of_int \<lfloor>c + 1 / 2\<rfloor>" by simp
next
  assume "\<not> isFinite (js_times n (Fin 100))"
  then show "round2 n = js_times n (Fin 100)" by (rule round2_not_finite)
next
  show "persist st (Store m)
      = Store (m(LS_INSTALLED \<mapsto> JSON_stringify (\<lambda>k. Num (installed st k)),
                LS_PLF \<mapsto> JSON_stringify (\<lambda>k. Num (plf st k))))"
    by (rule persist_Store)
next
  show "save_record (Store m) key obj = Inr (Store (m(key \<mapsto> JSON_stringify obj)))"
    by (simp add: save_record_def)
qed

lemma plf_60:
  "js_div (Fin 60) (Fin 100) = Fin (5404319552844595 / 9007199254740992)"
  apply simp
  apply (rule fl_eval[where e = "- 1"])
  apply (simp_all add: fl_eval_simps)
  done

lemma product_50:
  "js_times (Fin 50) (Fin (5404319552844595 / 9007199254740992)) = Fin 30"
  apply simp
  apply (rule fl_eval[where e = "4"])
  apply (simp_all add: fl_eval_simps)
  done

theorem rated_capacity_witness:
  "isFinite (Fin 50) \<and> isFinite (Fin 60)
   \<and> ratedBySource (zeros(Coal := Fin 50)) (zeros(Coal := Fin 60)) Coal = Fin 30
   \<and> (\<exists>f. rated ((\<lambda>s. Num (Fin 0))(Coal := Num (Fin 50))) ((\<lambda>s. Num (Fin 0))(Coal := Str ''60''))
            = Inr f \<and> f Coal = Fin 30)
   \<and> rated ((\<lambda>s. Num (Fin 0))(Coal := Obj [(''toString'', Null)])) (\<lambda>s. Num (Fin 0)) = Inl TypeError
   \<and> js_times (Fin 30) (Fin 100) = Fin 3000
   \<and> round2 (Fin 30) = Fin 30
   \<and> js_times PosInf (Fin 100) = PosInf
   \<and> round2 PosInf = PosInf
   \<and> round2 NaN = NaN"
proof -
  have a: "fl 3000 = Fin 3000" using fl_of_nat[of 3000] by simp
  have b: "fl 30 = Fin 30" using fl_of_nat[of 30] by simp
  have c: "js_times (Fin 30) (Fin 100) = Fin 3000" using a by simp
  have r: "round2 (Fin 30) = Fin 30"
    using rated_capacity_formula[where n = "Fin 30" and c = 3000, THEN conjunct2, THEN conjunct2,
        THEN conjunct2, THEN conjunct2, THEN conjunct1] c b
    by (simp add: floor_rat_numeral)
  have i: "round2 PosInf = PosInf"
    using rated_capacity_formula[where n = PosInf, THEN conjunct2, THEN conjunct2,
        THEN conjunct2, THEN conjunct2, THEN conjunct2, THEN conjunct1]
    by simp
  have u: "round2 NaN = NaN"
    using rated_capacity_formula[where n = NaN, THEN conjunct2, THEN conjunct2,
        THEN conjunct2, THEN conjunct2, THEN conjunct2, THEN conjunct1]
    by simp
  have n60: "StringToNumber ''60'' = Fin 60"
    using fl_of_nat[of 60] by (simp add: parse_number_simps)
  have s: "ratedBySource (zeros(Coal := Fin 50)) (zeros(Coal := Fin 60)) Coal = Fin 30"
    using rated_capacity_formula[where i = "zeros(Coal := Fin 50)" and k = Coal
        and q = "zeros(Coal := Fin 60)", THEN conjunct2, THEN conjunct2, THEN conjunct2,
        THEN conjunct1]
    by (simp add: plf_60 product_50 r del: js_times.simps js_div.simps)
  have t: "\<exists>f. rated ((\<lambda>s. Num (Fin 0))(Coal := Num (Fin 50))) ((\<lambda>s. Num (Fin 0))(Coal := Str ''60''))
            = Inr f \<and> f Coal = Fin 30"
    using rated_capacity_formula[where inst = "(\<lambda>s. Num (Fin 0))(Coal := Num (Fin 50))"
        and p = "(\<lambda>s. Num (Fin 0))(Coal := Str ''60'')", THEN conjunct2, THEN conjunct1]
    by (simp add: n60 plf_60 product_50 r del: js_times.simps js_div.simps)
  have e: "rated ((\<lambda>s. Num (Fin 0))(Coal := Obj [(''toString'', Null)])) (\<lambda>s. Num (Fin 0)) = Inl TypeError"
    using rated_capacity_formula[where inst = "(\<lambda>s. Num (Fin 0))(Coal := Obj [(''toString'', Null)])"
        and p = "\<lambda>s. Num (Fin 0)", THEN conjunct1]
    by auto
  have pi: "js_times PosInf (Fin 100) = PosInf" by simp
  show ?thesis
    apply (intro conjI)
             apply simp
            apply simp
           apply (rule s)
          apply (rule t)
         apply (rule e)
        apply (rule c)
       apply (rule r)
      apply (rule pi)
     apply (rule i)
    apply (rule u)
    done
qed


section \<open>Coercion and clamping of the entries\<close>

lemma finite_record_iff: "finite_record c \<longleftrightarrow> (\<forall>k. isFinite (c k))"
  by (auto simp add: finite_record_def list_all_iff SOURCES_all)

lemma safeNum_finite: "isFinite (safeNum v)"
  by (simp add: safeNum_def Let_def)

lemma isFinite_iff: "isFinite n \<longleftrightarrow> (\<exists>x. n = Fin x)"
  by (cases n) simp_all

lemma clamp_range:
  "\<exists>x. Math_min (Fin 100) (Math_max (Fin 0) (Fin y)) = Fin x \<and> 0 \<le> x \<and> x \<le> 100"
  by (auto simp add: Math_min_def Math_max_def)

text \<open>
  C9. In src/RatedCapacity.tsx an entered PLF is stored as
  \<open>min(100, max(0, safeNum(value)))\<close>, a finite number between 0 and 100; in
  src/unnamed/part_000 it is stored as the number the text converts to, whatever it is.
  In both, the other sources keep their values.
\<close>

theorem plf_entry_clamped_in_one_variant:
  "plf (setPlf_onChange k v s) k = Math_min (Fin 100) (Math_max (Fin 0) (safeNum (Str v)))
   \<and> (\<exists>x. plf (setPlf_onChange k v s) k = Fin x \<and> 0 \<le> x \<and> x \<le> 100)
   \<and> (j \<noteq> k \<longrightarrow> plf (setPlf_onChange k v s) j = plf s j)
   \<and> plf0 (setPlf0_onChange k v st) k = Num (ToNumber (Str v))
   \<and> (j \<noteq> k \<longrightarrow> plf0 (setPlf0_onChange k v st) j = plf0 st j)"
proof -
  obtain y where y: "safeNum (Str v) = Fin y"
    using safeNum_finite[of "Str v"] by (auto simp add: isFinite_iff)
  show ?thesis
    using clamp_range[of y] by (simp add: setPlf_onChange_def setPlf0_onChange_def Let_def y)
qed

theorem plf_entry_witness:
  "plf (setPlf_onChange Coal ''150'' initial_state) Coal = Fin 100
   \<and> plf (setPlf_onChange Coal ''-3'' initial_state) Coal = Fin 0
   \<and> plf (setPlf_onChange Coal ''60'' initial_state) Coal = Fin 60
   \<and> plf (setPlf_onChange Coal ''60'' initial_state) Wind = Fin 0
   \<and> plf0 (setPlf0_onChange Coal ''150'' (initial_state0 (Store Map.empty))) Coal = Num (Fin 150)
   \<and> plf0 (setPlf0_onChange Coal ''-3'' (initial_state0 (Store Map.empty))) Coal = Num (Fin (- 3))
   \<and> plf0 (setPlf0_onChange Coal ''-3'' (initial_state0 (Store Map.empty))) Wind = Num (Fin 0)"
proof -
  have n150: "StringToNumber ''150'' = Fin 150"
    using fl_of_nat[of 150] by (simp add: parse_number_simps)
  have n60: "StringToNumber ''60'' = Fin 60"
    using fl_of_nat[of 60] by (simp add: parse_number_simps)
  have n3: "StringToNumber ''-3'' = Fin (- 3)"
    using fl_of_nat[of 3] by (simp add: parse_number_simps)
  have w: "Wind \<noteq> Coal" by simp
  show ?thesis
    using plf_entry_clamped_in_one_variant[of Coal "''150''" initial_state Wind "initial_state0 (Store Map.empty)"]
      plf_entry_clamped_in_one_variant[of Coal "''-3''" initial_state Wind "initial_state0 (Store Map.empty)"]
      plf_entry_clamped_in_one_variant[of Coal "''60''" initial_state Wind "initial_state0 (Store Map.empty)"]
    by (simp add: safeNum_Str n150 n60 n3 Math_min_def Math_max_def initial_state_def zeros_def
        initial_state0_def init_record_def)
qed


text \<open>
  In src/RatedCapacity.tsx every write of the two records stores finite numbers: the
  initial zeros, the values restored from storage, the row of the capacity CSV and the
  entries. So the mount effect and the handlers keep both records finite.
\<close>

lemma finite_zeros: "finite_record zeros"
  by (simp add: finite_record_iff zeros_def)

lemma finite_restore: "finite_record prev \<Longrightarrow> finite_record (restore ls prev)"
  by (auto simp add: finite_record_iff restore_def safeNum_finite split: option.splits)

lemma finite_parseCapacityCSV: "parseCapacityCSV text = Some c \<Longrightarrow> finite_record c"
  by (auto simp add: parseCapacityCSV_def Let_def finite_record_iff safeNum_finite split: if_splits)

lemma finite_setInstalled:
  "finite_record (installed s) \<Longrightarrow> finite_record (installed (setInstalled_onChange k v s))"
  by (simp add: finite_record_iff setInstalled_onChange_def safeNum_finite)

lemma finite_setPlf:
  "finite_record (plf s) \<Longrightarrow> finite_record (plf (setPlf_onChange k v s))"
proof -
  obtain y where y: "safeNum (Str v) = Fin y"
    using safeNum_finite[of "Str v"] by (auto simp add: isFinite_iff)
  assume "finite_record (plf s)"
  then show ?thesis
    using clamp_range[of y] by (auto simp add: finite_record_iff setPlf_onChange_def Let_def y)
qed

lemma finite_mount:
  assumes "finite_record (installed s)" "finite_record (plf s)"
  shows "finite_record (installed (fst (mount st net s))) \<and> finite_record (plf (fst (mount st net s)))"
proof -
  have "fetch_capacity net = Inr c \<Longrightarrow> finite_record c" for c
    by (auto simp add: fetch_capacity_def finite_parseCapacityCSV
        split: response.splits if_splits option.splits)
  then show ?thesis
    using assms
    by (auto simp add: mount_def load_csv_def Let_def finite_restore
        split: option.splits sum.splits)
qed

section \<open>Saving and loading a record\<close>

lemma stringify_finite:
  assumes "finite_record r"
  shows "JSON_stringify (\<lambda>k. Num (r k)) = Json (Obj (map (\<lambda>k. (source_name k, Num (r k))) SOURCES))"
  using assms by (simp add: JSON_stringify_def finite_record_iff)

lemma map_of_saved:
  "map_of (map (\<lambda>k. (source_name k, Num (r k))) SOURCES) (source_name k) = Some (Num (r k))"
  by (cases k) (simp_all add: SOURCES_def)

lemma own_saved:
  "own (Obj (map (\<lambda>k. (source_name k, Num (r k))) SOURCES)) (source_name k) = Some (Num (r k))"
  by (simp add: map_of_saved)

lemma saved_convertible:
  "\<not> (\<exists>k \<in> set SOURCES.
        case own (Obj (map (\<lambda>k. (source_name k, Num (r k))) SOURCES)) (source_name k) of
          Some v \<Rightarrow> unconvertible v
        | None \<Rightarrow> False)"
  by (simp add: map_of_saved)

lemma loadLS_saveLS:
  assumes "finite_record r"
  shows "loadLS (saveLS (Store m) key r) key = Some (\<lambda>k. Some (r k))"
proof -
  have f: "\<And>k. isFinite (r k)" using assms by (simp add: finite_record_iff)
  have "loadLS (saveLS (Store m) key r) key
      = Some (\<lambda>k. map_option safeNum (own (Obj (map (\<lambda>k. (source_name k, Num (r k))) SOURCES)) (source_name k)))"
    using saved_convertible[of r]
    by (simp add: loadLS_def saveLS_def stringify_finite[OF assms])
  also have "\<dots> = Some (\<lambda>k. Some (r k))"
    by (simp add: map_of_saved safeNum_Num f)
  finally show ?thesis .
qed

lemma restore_all:
  assumes "finite_record r"
  shows "restore (\<lambda>k. Some (r k)) prev = r"
  using assms by (auto simp add: restore_def finite_record_iff safeNum_Num)

lemma init_record_save_record:
  assumes "finite_record r"
  shows "\<exists>st'. save_record (Store m) key (\<lambda>k. Num (r k)) = Inr st' \<and>
           init_record st' key = (\<lambda>k. Num (r k))"
  by (simp add: save_record_def stringify_finite[OF assms] init_record_def Object_assign_def map_of_saved)

text \<open>
  C6. A record of eight finite numbers saved under a key is loaded from that key as it
  was, key for key: \<open>loadLS\<close> after \<open>saveLS\<close> returns it with every property present,
  and the mount effect's update then installs exactly it; in the second variant the
  initialiser, run on the storage that the saving effect has written, yields it again.
  The storage is the one written (nothing has changed it) and accepts the write.
\<close>

theorem saved_record_loads_unchanged:
  "finite_record r \<longrightarrow>
     loadLS (saveLS (Store m) key r) key = Some (\<lambda>k. Some (r k))
     \<and> restore (\<lambda>k. Some (r k)) prev = r
     \<and> (\<exists>st'. save_record (Store m) key (\<lambda>k. Num (r k)) = Inr st' \<and>
           init_record st' key = (\<lambda>k. Num (r k)))"
  using loadLS_saveLS restore_all init_record_save_record by blast

theorem saved_record_witness:
  "finite_record (zeros(Coal := Fin 50, Wind := Fin (25 / 2)))
   \<and> loadLS (saveLS (Store Map.empty) LS_INSTALLED (zeros(Coal := Fin 50, Wind := Fin (25 / 2)))) LS_INSTALLED
       = Some (\<lambda>k. Some ((zeros(Coal := Fin 50, Wind := Fin (25 / 2))) k))
   \<and> restore (\<lambda>k. Some ((zeros(Coal := Fin 50, Wind := Fin (25 / 2))) k)) zeros
       = zeros(Coal := Fin 50, Wind := Fin (25 / 2))
   \<and> (\<exists>st'. save_record (Store Map.empty) INST_KEY (\<lambda>k. Num ((zeros(Coal := Fin 50, Wind := Fin (25 / 2))) k)) = Inr st' \<and>
           init_record st' INST_KEY = (\<lambda>k. Num ((zeros(Coal := Fin 50, Wind := Fin (25 / 2))) k)))"
proof -
  have f: "finite_record (zeros(Coal := Fin 50, Wind := Fin (25 / 2)))"
    by (simp add: finite_record_def SOURCES_def zeros_def)
  show ?thesis
    using f saved_record_loads_unchanged[of "zeros(Coal := Fin 50, Wind := Fin (25 / 2))" Map.empty LS_INSTALLED zeros]
      saved_record_loads_unchanged[of "zeros(Coal := Fin 50, Wind := Fin (25 / 2))" Map.empty INST_KEY zeros]
    by blast
qed

section \<open>Initialisation of the installed capacity\<close>

lemma fl_numeral: "numeral w < (2::nat) ^ 53 \<Longrightarrow> fl (numeral w) = Fin (numeral w)"
  using fl_of_nat[of "numeral w"] by simp

lemma fetch_capacity_Inr:
  "fetch_capacity net = Inr parsed \<longleftrightarrow>
     (\<exists>text. net = Response True (Some text) \<and> parseCapacityCSV text = Some parsed)"
  by (auto simp add: fetch_capacity_def split: response.splits option.splits)

text \<open>
  C2. When \<open>loadLS\<close> finds a persisted installed record, the mount effect installs its
  values over the zeros (all of them, for a record saved by the component) and never
  requests the capacity CSV. When it finds none, the CSV is requested; a response that
  is ok and parses installs the parsed row, and every failure (rejected request, status
  not ok, unreadable body, fewer than two lines, a missing column) leaves the zeros and
  sets \<open>csvLoaded\<close> to false, the "CSV not loaded" signal.
\<close>

theorem installed_from_storage_before_csv:
  "(loadLS st LS_INSTALLED = Some instLS \<longrightarrow>
      \<not> snd (mount st net initial_state)
      \<and> installed (fst (mount st net initial_state)) = restore instLS zeros
      \<and> csvLoaded (fst (mount st net initial_state))
      \<and> (finite_record r \<and> instLS = (\<lambda>k. Some (r k)) \<longrightarrow>
            installed (fst (mount st net initial_state)) = r))
   \<and> (loadLS st LS_INSTALLED = None \<longrightarrow>
      snd (mount st net initial_state)
      \<and> (fetch_capacity net = Inr parsed \<longrightarrow>
            installed (fst (mount st net initial_state)) = parsed
            \<and> csvLoaded (fst (mount st net initial_state)))
      \<and> (fetch_capacity net = Inl e \<longrightarrow>
            installed (fst (mount st net initial_state)) = zeros
            \<and> \<not> csvLoaded (fst (mount st net initial_state))))
   \<and> (fetch_capacity net = Inr parsed \<longleftrightarrow>
        (\<exists>body. net = Response True (Some body) \<and> parseCapacityCSV body = Some parsed))"
proof -
  have a: "\<not> snd (mount st net initial_state)
      \<and> installed (fst (mount st net initial_state)) = restore instLS zeros
      \<and> csvLoaded (fst (mount st net initial_state))"
    if "loadLS st LS_INSTALLED = Some instLS"
    using that by (simp add: mount_def Let_def initial_state_def split: option.splits)
  have b: "snd (mount st net initial_state)" if "loadLS st LS_INSTALLED = None"
    using that by (simp add: mount_def Let_def split: option.splits)
  have c: "installed (fst (mount st net initial_state)) = parsed
      \<and> csvLoaded (fst (mount st net initial_state))"
    if "loadLS st LS_INSTALLED = None" "fetch_capacity net = Inr parsed"
    using that by (simp add: mount_def Let_def load_csv_def split: option.splits)
  have d: "installed (fst (mount st net initial_state)) = zeros
      \<and> \<not> csvLoaded (fst (mount st net initial_state))"
    if "loadLS st LS_INSTALLED = None" "fetch_capacity net = Inl e"
    using that by (simp add: mount_def Let_def load_csv_def initial_state_def split: option.splits)
  have r: "restore (\<lambda>k. Some (r k)) zeros = r" if "finite_record r"
    using that by (rule restore_all)
  show ?thesis
    using a b c d r fetch_capacity_Inr[of net parsed] by (intro conjI impI; simp)
qed

lemma capacity_csv_example:
  "map_option (\<lambda>c. map c SOURCES) (parseCapacityCSV capacity_csv_scenario)
   = Some [Fin 50, Fin 10, Fin 8, Fin 5, Fin 20, Fin 15, Fin 2, Fin 3]"
  by (simp add: capacity_csv_scenario_def parseCapacityCSV_def csv_map_def nth_opt_def safeNum_Str
      SOURCES_def parse_number_simps fl_numeral upt_rec_numeral)

theorem installed_from_storage_witness:
  "loadLS (saveLS (Store Map.empty) LS_INSTALLED (zeros(Coal := Fin 50))) LS_INSTALLED
     = Some (\<lambda>k. Some ((zeros(Coal := Fin 50)) k))
   \<and> \<not> snd (mount (saveLS (Store Map.empty) LS_INSTALLED (zeros(Coal := Fin 50))) Rejected initial_state)
   \<and> installed (fst (mount (saveLS (Store Map.empty) LS_INSTALLED (zeros(Coal := Fin 50))) Rejected initial_state))
     = zeros(Coal := Fin 50)
   \<and> loadLS (Store Map.empty) LS_INSTALLED = None
   \<and> fetch_capacity Rejected = Inl Error
   \<and> snd (mount (Store Map.empty) Rejected initial_state)
   \<and> installed (fst (mount (Store Map.empty) Rejected initial_state)) = zeros
   \<and> \<not> csvLoaded (fst (mount (Store Map.empty) Rejected initial_state))
   \<and> map (installed (fst (mount (Store Map.empty) (Response True (Some capacity_csv_scenario))
        initial_state))) SOURCES
     = [Fin 50, Fin 10, Fin 8, Fin 5, Fin 20, Fin 15, Fin 2, Fin 3]
   \<and> csvLoaded (fst (mount (Store Map.empty) (Response True (Some capacity_csv_scenario)) initial_state))"
proof -
  let ?r = "zeros(Coal := Fin 50)"
  let ?st = "saveLS (Store Map.empty) LS_INSTALLED ?r"
  let ?csv = "capacity_csv_scenario"
  have f: "finite_record ?r"
    by (simp add: finite_record_def SOURCES_def zeros_def)
  have l: "loadLS ?st LS_INSTALLED = Some (\<lambda>k. Some (?r k))"
    using f by (rule loadLS_saveLS)
  have n: "loadLS (Store Map.empty) LS_INSTALLED = None"
    by (simp add: loadLS_def)
  have e: "fetch_capacity Rejected = Inl Error"
    by (simp add: fetch_capacity_def)
  from capacity_csv_example[unfolded map_option_eq_Some]
  obtain parsed where pv: "parseCapacityCSV ?csv = Some parsed \<and>
      map parsed SOURCES = [Fin 50, Fin 10, Fin 8, Fin 5, Fin 20, Fin 15, Fin 2, Fin 3]" ..
  note p = pv[THEN conjunct1] and v = pv[THEN conjunct2]
  have g: "fetch_capacity (Response True (Some ?csv)) = Inr parsed"
    using p by (simp add: fetch_capacity_def)
  note t1 = installed_from_storage_before_csv[of ?st "\<lambda>k. Some (?r k)" Rejected ?r parsed Error]
  note t2 = installed_from_storage_before_csv[of "Store Map.empty" "\<lambda>k. Some (?r k)" Rejected ?r parsed Error]
  note t3 = installed_from_storage_before_csv[of "Store Map.empty" "\<lambda>k. Some (?r k)"
      "Response True (Some ?csv)" ?r parsed Error]
  note d1 = t1[THEN conjunct1, THEN mp, OF l]
  note d2 = t2[THEN conjunct2, THEN conjunct1, THEN mp, OF n]
  note d3 = t3[THEN conjunct2, THEN conjunct1, THEN mp, OF n]
  have w1: "\<not> snd (mount ?st Rejected initial_state)"
    by (rule d1[THEN conjunct1])
  have w2: "installed (fst (mount ?st Rejected initial_state)) = ?r"
    by (rule d1[THEN conjunct2, THEN conjunct2, THEN conjunct2, THEN mp, OF conjI[OF f refl]])
  have w3: "snd (mount (Store Map.empty) Rejected initial_state)"
    by (rule d2[THEN conjunct1])
  note d2e = d2[THEN conjunct2, THEN conjunct2, THEN mp, OF e]
  have w4: "installed (fst (mount (Store Map.empty) Rejected initial_state)) = zeros"
    by (rule d2e[THEN conjunct1])
  have w5: "\<not> csvLoaded (fst (mount (Store Map.empty) Rejected initial_state))"
    by (rule d2e[THEN conjunct2])
  note d3g = d3[THEN conjunct2, THEN conjunct1, THEN mp, OF g]
  have w6: "installed (fst (mount (Store Map.empty) (Response True (Some ?csv)) initial_state)) = parsed"
    by (rule d3g[THEN conjunct1])
  have w7: "csvLoaded (fst (mount (Store Map.empty) (Response True (Some ?csv)) initial_state))"
    by (rule d3g[THEN conjunct2])
  show ?thesis
    unfolding w6 using l w1 w2 n e w3 w4 w5 v w7 by (intro conjI)
qed

section \<open>Digits and month keys\<close>

lemma digit_cases: "(d::nat) < 10 \<Longrightarrow> d \<in> {0, 1, 2, 3, 4, 5, 6, 7, 8, 9}"
  by auto

lemma digit_val_char: "d < 10 \<Longrightarrow> digit_val (digit_char d) = d"
  using digit_cases[of d] by (auto simp add: digit_val_def digit_char_def)

lemma is_digit_char: "d < 10 \<Longrightarrow> is_digit (digit_char d)"
  using digit_cases[of d] by (auto simp add: is_digit_def digit_char_def)

lemma digit_val_less: "is_digit c \<Longrightarrow> digit_val c < 10"
  by (auto simp add: is_digit_def digit_val_def)

lemma char_of_digit_val: "is_digit c \<Longrightarrow> digit_char (digit_val c) = c"
  by (auto simp add: is_digit_def digit_val_def digit_char_def)

lemma digit_val_zero: "is_digit c \<Longrightarrow> digit_val c = 0 \<Longrightarrow> c = CHR ''0''"
  by (auto simp add: is_digit_def digit_val_def)

lemma is_digit_not_special:
  "is_digit c \<Longrightarrow> \<not> is_ws c \<and> c \<noteq> CHR ''/'' \<and> c \<noteq> CHR ''-''"
  by (auto simp add: is_digit_def is_ws_def)

lemma digits_val_snoc: "digits_val (s @ [c]) = 10 * digits_val s + digit_val c"
  by (simp add: digits_val_def radix_val_def)

lemma digits_val_single: "digits_val [c] = digit_val c"
  by (simp add: digits_val_def radix_val_def)

lemma digits_val_Nil: "digits_val [] = 0"
  by (simp add: digits_val_def radix_val_def)

lemma digits_val_bound: "list_all is_digit s \<Longrightarrow> digits_val s < 10 ^ length s"
proof (induction s rule: rev_induct)
  case Nil
  then show ?case by (simp add: digits_val_Nil)
next
  case (snoc c s)
  then have "digits_val s < 10 ^ length s" "digit_val c < 10"
    by (simp_all add: digit_val_less)
  then have "10 * digits_val s + digit_val c < 10 * 10 ^ length s" by linarith
  then show ?case by (simp add: digits_val_snoc)
qed

text \<open>Printing the number of a string of digits gives the string back, up to leading zeros.\<close>

lemma String_nat_digit: "d < 10 \<Longrightarrow> String_nat d = [digit_char d]"
  by (simp add: String_nat.simps)

lemma String_nat_step: "0 < v \<Longrightarrow> d < 10 \<Longrightarrow> String_nat (10 * v + d) = String_nat v @ [digit_char d]"
proof -
  assume a: "0 < v" "d < 10"
  then have "\<not> 10 * v + d < 10" by simp
  moreover have "(10 * v + d) div 10 = v" "(10 * v + d) mod 10 = d" using a by simp_all
  ultimately show ?thesis by (subst String_nat.simps) simp
qed

lemma String_nat_digits_val:
  "s \<noteq> [] \<Longrightarrow> list_all is_digit s \<Longrightarrow> hd s \<noteq> CHR ''0'' \<Longrightarrow> String_nat (digits_val s) = s \<and> 0 < digits_val s"
proof (induction s rule: rev_induct)
  case Nil
  then show ?case by simp
next
  case (snoc c s)
  have c: "is_digit c" using snoc.prems(2) by simp
  show ?case
  proof (cases "s = []")
    case True
    have "digit_val c \<noteq> 0"
      using digit_val_zero[OF c] snoc.prems(3) True by auto
    then show ?thesis
      using True c
      by (simp add: digits_val_single digit_val_less char_of_digit_val String_nat_digit)
  next
    case False
    then have "String_nat (digits_val s) = s \<and> 0 < digits_val s"
      using snoc by simp
    then show ?thesis
      using c by (simp add: digits_val_snoc String_nat_step digit_val_less char_of_digit_val)
  qed
qed


lemma two_digits:
  assumes "n < 100"
  shows "length (padStart 2 CHR ''0'' (String_nat n)) = 2
    \<and> list_all is_digit (padStart 2 CHR ''0'' (String_nat n))
    \<and> digits_val (padStart 2 CHR ''0'' (String_nat n)) = n"
proof (cases "n < 10")
  case True
  then have "padStart 2 CHR ''0'' (String_nat n) = [CHR ''0'', digit_char n]"
    by (simp add: String_nat_digit padStart_def)
  then show ?thesis
    using True digits_val_snoc[of "[CHR ''0'']" "digit_char n"]
    by (simp add: is_digit_char digit_val_char digits_val_single) (simp add: is_digit_def digit_val_def)
next
  case False
  define a where "a = n div 10"
  define b where "b = n mod 10"
  have n: "n = 10 * a + b" and a: "0 < a" "a < 10" and b: "b < 10"
    using False assms by (auto simp add: a_def b_def)
  have "String_nat n = [digit_char a, digit_char b]"
    unfolding n using a b by (simp add: String_nat_step String_nat_digit)
  then have "padStart 2 CHR ''0'' (String_nat n) = [digit_char a, digit_char b]"
    by (simp add: padStart_def)
  then show ?thesis
    using a b digits_val_snoc[of "[digit_char a]" "digit_char b"]
    by (simp add: is_digit_char digit_val_char digits_val_single n)
qed

lemma pad_two_digits:
  assumes "length mm = 2" "list_all is_digit mm"
  shows "padStart 2 CHR ''0'' (String_nat (digits_val mm)) = mm"
proof -
  obtain a b where mm: "mm = [a, b]"
    using assms(1) by (cases mm; cases "tl mm") auto
  have d: "is_digit a" "is_digit b" using assms(2) mm by simp_all
  have v: "digits_val mm = 10 * digit_val a + digit_val b"
    using digits_val_snoc[of "[a]" b] by (simp add: mm digits_val_single)
  show ?thesis
  proof (cases "digit_val a = 0")
    case True
    then have a0: "a = CHR ''0''" using d(1) by (simp add: digit_val_zero)
    have "digits_val mm = digit_val b" using v True by simp
    then have sn: "String_nat (digits_val mm) = [b]"
      using d(2) by (simp add: String_nat_digit digit_val_less char_of_digit_val)
    show ?thesis unfolding sn by (simp add: padStart_def mm a0)
  next
    case False
    then have sn: "String_nat (digits_val mm) = [a, b]"
      using d by (simp add: v String_nat_step String_nat_digit digit_val_less char_of_digit_val)
    show ?thesis unfolding sn by (simp add: padStart_def mm)
  qed
qed

lemma split_on_none: "c \<notin> set s \<Longrightarrow> split_on c s = [s]"
  by (induction s) auto

lemma split_on_app: "c \<notin> set a \<Longrightarrow> split_on c (a @ c # b) = a # split_on c b"
  by (induction a) auto

lemma split_on_chars: "x \<in> set s \<Longrightarrow> x = c \<or> (\<exists>p \<in> set (split_on c s). x \<in> set p)"
proof (induction s)
  case Nil
  then show ?case by simp
next
  case (Cons y s)
  show ?case
  proof (cases "split_on c s")
    case Nil
    then show ?thesis using Cons by auto
  next
    case (Cons p ps)
    then show ?thesis using Cons.IH Cons.prems by auto
  qed
qed

lemma trim_no_ws: "\<forall>c \<in> set s. \<not> is_ws c \<Longrightarrow> trim s = s"
proof -
  assume a: "\<forall>c \<in> set s. \<not> is_ws c"
  then have "dropWhile is_ws s = s" by (cases s) auto
  moreover have "dropWhile is_ws (rev s) = rev s" using a by (cases "rev s") (auto dest: arg_cong[of _ _ set])
  ultimately show ?thesis by (simp add: trim_def)
qed

section \<open>Coercion of what the records hold\<close>

lemma safeNum_ToNumber:
  "safeNum u = (if isFinite (ToNumber u) then ToNumber u else Fin 0)"
proof (cases u)
  case (Str v)
  then show ?thesis using safeNum_Str[of v] by simp
qed (simp_all add: safeNum_def)

lemma safeNum_safeNum: "safeNum (Num (safeNum x)) = safeNum x"
  by (rule safeNum_Num) (rule safeNum_finite)

lemma loadLS_stored:
  assumes "getItem st key = Inr (Some (Json obj))" "loadLS st key \<noteq> None"
  shows "loadLS st key = Some (\<lambda>k. map_option safeNum (own obj (source_name k)))"
  using assms by (simp add: loadLS_def split: if_splits)

lemma restore_stored:
  "restore (\<lambda>k. map_option safeNum (own obj (source_name k))) prev k
    = (case own obj (source_name k) of Some x \<Rightarrow> safeNum x | None \<Rightarrow> prev k)"
  by (simp add: restore_def safeNum_safeNum split: option.splits)

lemma mount_installed_restored:
  assumes "getItem st LS_INSTALLED = Inr (Some (Json obj))" "loadLS st LS_INSTALLED \<noteq> None"
  shows "installed (fst (mount st net s)) k
    = (case own obj (source_name k) of Some x \<Rightarrow> safeNum x | None \<Rightarrow> installed s k)"
proof -
  have "installed (fst (mount st net s))
      = restore (\<lambda>k. map_option safeNum (own obj (source_name k))) (installed s)"
    by (simp add: mount_def Let_def loadLS_stored[OF assms] split: option.splits)
  then show ?thesis by (simp add: restore_stored)
qed

lemma mount_plf_restored:
  assumes "getItem st LS_PLF = Inr (Some (Json obj))" "loadLS st LS_PLF \<noteq> None"
  shows "plf (fst (mount st net s)) k
    = (case own obj (source_name k) of Some x \<Rightarrow> safeNum x | None \<Rightarrow> plf s k)"
proof -
  have "plf (fst (mount st net s))
      = restore (\<lambda>k. map_option safeNum (own obj (source_name k))) (plf s)"
    by (simp add: mount_def Let_def load_csv_def loadLS_stored[OF assms]
        split: option.splits sum.splits)
  then show ?thesis by (simp add: restore_stored)
qed

lemma parseCapacityCSV_cell:
  assumes "parseCapacityCSV body = Some c"
  shows "\<exists>w. c k = safeNum (Str w)"
proof -
  let ?lines = "filter (\<lambda>l. l \<noteq> []) (map trim (split_lines body))"
  let ?m = "csv_map (map trim (split_on CHR '','' (?lines ! 0))) (map trim (split_on CHR '','' (?lines ! 1)))"
  have all: "\<not> (\<exists>k \<in> set SOURCES. ?m (source_name k) = None)"
    and c: "c = (\<lambda>k. safeNum (case ?m (source_name k) of Some v \<Rightarrow> Str v | None \<Rightarrow> Undefined))"
    using assms by (auto simp add: parseCapacityCSV_def Let_def split: if_splits)
  from all obtain w where "?m (source_name k) = Some w" using SOURCES_all[of k] by auto
  then show ?thesis using c by auto
qed

lemma mount_installed_csv:
  assumes "loadLS st LS_INSTALLED = None" "fetch_capacity net = Inr c"
  shows "installed (fst (mount st net s)) = c"
  using assms by (simp add: mount_def Let_def load_csv_def split: option.splits)

lemma fetch_capacity_cell:
  assumes "fetch_capacity net = Inr c"
  shows "\<exists>w. c k = safeNum (Str w)"
proof -
  obtain body where "parseCapacityCSV body = Some c"
    using assms fetch_capacity_Inr[of net c] by auto
  then show ?thesis by (rule parseCapacityCSV_cell)
qed

lemma init_record_stored:
  assumes "own obj (source_name k) = Some x"
  shows "init_record (Store (m(key \<mapsto> Json obj))) key k = x"
  using assms by (simp add: init_record_def Object_assign_def)

lemma entry_not_finite:
  assumes "\<not> isFinite (ToNumber (Str v))"
  shows "installed (setInstalled_onChange k v s) k = Fin 0 \<and> plf (setPlf_onChange k v s) k = Fin 0"
  using assms
  by (simp add: setInstalled_onChange_def setPlf_onChange_def safeNum_Str Math_min_def Math_max_def)

text \<open>
  At the first render of the second variant the ledger is empty, so the start of the
  range is the empty string and its end is \<open>undefined\<close>: the effect on the range throws
  when the effects of the first render run. The records have been initialised and
  rendered by then, and the saving effects, which come first, have run.
\<close>

lemma range_effect_first_render: "range_effect [] None = Inl TypeError"
  by (simp add: range_effect_def)

text \<open>
  C3, as stated, fails in src/unnamed/part_000. With \<open>{"Coal":"abc"}\<close> stored under the
  key of the installed capacities, the initialiser of the record copies the string:
  from the first render the record holds \<open>"abc"\<close> for coal, which is no number. A
  stored \<open>null\<close> is held as \<open>null\<close>. On the same storage src/RatedCapacity.tsx holds 0.
\<close>

theorem second_variant_holds_stored_string:
  "init_record (Store [INST_KEY \<mapsto> Json (Obj [(''Coal'', Str ''abc'')])]) INST_KEY Coal = Str ''abc''
   \<and> installed0 (initial_state0 (Store [INST_KEY \<mapsto> Json (Obj [(''Coal'', Str ''abc'')])])) Coal
       = Str ''abc''
   \<and> plf0 (initial_state0 (Store [PLF_KEY \<mapsto> Json (Obj [(''Coal'', Null)])])) Coal = Null
   \<and> installed (fst (mount (Store [LS_INSTALLED \<mapsto> Json (Obj [(''Coal'', Str ''abc'')])])
                       Rejected initial_state)) Coal = Fin 0"
proof -
  have n: "StringToNumber ''abc'' = NaN"
    by (simp add: parse_number_simps)
  show ?thesis
    by (simp add: initial_state0_def init_record_def Object_assign_def INST_KEY_def PLF_KEY_def
        LS_INSTALLED_def LS_PLF_def mount_def loadLS_def restore_def safeNum_Str n Let_def
        SOURCES_def safeNum_Num)
qed

text \<open>
  C3, amended. In src/RatedCapacity.tsx both records hold finite numbers at every
  moment: they start as zeros, and the mount effect and the two editors keep them
  finite. What is written is \<open>safeNum\<close> of the input - the stored property on restore, a
  cell of the capacity CSV, the entered text (the PLF then clamped) - which is the
  number the input converts to when that is finite and 0 otherwise. In
  src/unnamed/part_000 the records are written without coercion: the initialiser
  copies each stored property as it is, and the editors store the number the entered
  text converts to, whatever it is.
\<close>

theorem records_coerced_in_first_variant_only:
  "finite_record (installed initial_state) \<and> finite_record (plf initial_state)
   \<and> (finite_record (installed s) \<and> finite_record (plf s) \<longrightarrow>
        finite_record (installed (fst (mount st net s)))
        \<and> finite_record (plf (fst (mount st net s)))
        \<and> finite_record (installed (setInstalled_onChange k v s))
        \<and> finite_record (plf (setInstalled_onChange k v s))
        \<and> finite_record (installed (setPlf_onChange k v s))
        \<and> finite_record (plf (setPlf_onChange k v s)))
   \<and> (getItem st LS_INSTALLED = Inr (Some (Json obj)) \<and> loadLS st LS_INSTALLED \<noteq> None \<longrightarrow>
        installed (fst (mount st net s)) k
          = (case own obj (source_name k) of Some x \<Rightarrow> safeNum x | None \<Rightarrow> installed s k))
   \<and> (getItem st LS_PLF = Inr (Some (Json obj)) \<and> loadLS st LS_PLF \<noteq> None \<longrightarrow>
        plf (fst (mount st net s)) k
          = (case own obj (source_name k) of Some x \<Rightarrow> safeNum x | None \<Rightarrow> plf s k))
   \<and> (loadLS st LS_INSTALLED = None \<and> fetch_capacity net = Inr c \<longrightarrow>
        installed (fst (mount st net s)) = c \<and> (\<exists>w. c k = safeNum (Str w)))
   \<and> installed (setInstalled_onChange k v s) k = safeNum (Str v)
   \<and> plf (setPlf_onChange k v s) k = Math_min (Fin 100) (Math_max (Fin 0) (safeNum (Str v)))
   \<and> (\<not> unconvertible u \<longrightarrow>
        isFinite (safeNum u)
        \<and> safeNum u = (if isFinite (ToNumber u) then ToNumber u else Fin 0))
   \<and> (\<not> isFinite (ToNumber (Str v)) \<longrightarrow>
        installed (setInstalled_onChange k v s) k = Fin 0
        \<and> plf (setPlf_onChange k v s) k = Fin 0)
   \<and> (own obj (source_name k) = Some x \<longrightarrow>
        init_record (Store (m(key \<mapsto> Json obj))) key k = x)
   \<and> installed0 (setInstalled0_onChange k v t) k = Num (ToNumber (Str v))
   \<and> plf0 (setPlf0_onChange k v t) k = Num (ToNumber (Str v))"
proof (intro conjI impI)
  show "finite_record (installed initial_state)" "finite_record (plf initial_state)"
    by (simp_all add: initial_state_def finite_zeros)
next
  assume f: "finite_record (installed s) \<and> finite_record (plf s)"
  then show "finite_record (installed (fst (mount st net s)))"
    "finite_record (plf (fst (mount st net s)))"
    using finite_mount[of s st net] by simp_all
  from f show "finite_record (installed (setInstalled_onChange k v s))"
    by (simp add: finite_setInstalled)
  from f show "finite_record (plf (setInstalled_onChange k v s))"
    by (simp add: setInstalled_onChange_def)
  from f show "finite_record (installed (setPlf_onChange k v s))"
    by (simp add: setPlf_onChange_def Let_def)
  from f show "finite_record (plf (setPlf_onChange k v s))"
    by (simp add: finite_setPlf)
next
  assume "getItem st LS_INSTALLED = Inr (Some (Json obj)) \<and> loadLS st LS_INSTALLED \<noteq> None"
  then show "installed (fst (mount st net s)) k
      = (case own obj (source_name k) of Some x \<Rightarrow> safeNum x | None \<Rightarrow> installed s k)"
    using mount_installed_restored by blast
next
  assume "getItem st LS_PLF = Inr (Some (Json obj)) \<and> loadLS st LS_PLF \<noteq> None"
  then show "plf (fst (mount st net s)) k
      = (case own obj (source_name k) of Some x \<Rightarrow> safeNum x | None \<Rightarrow> plf s k)"
    using mount_plf_restored by blast
next
  assume a: "loadLS st LS_INSTALLED = None \<and> fetch_capacity net = Inr c"
  then show "installed (fst (mount st net s)) = c" using mount_installed_csv by blast
  from a show "\<exists>w. c k = safeNum (Str w)" using fetch_capacity_cell by blast
next
  show "installed (setInstalled_onChange k v s) k = safeNum (Str v)"
    by (simp add: setInstalled_onChange_def)
next
  show "plf (setPlf_onChange k v s) k = Math_min (Fin 100) (Math_max (Fin 0) (safeNum (Str v)))"
    by (simp add: setPlf_onChange_def Let_def)
next
  show "isFinite (safeNum u)" by (rule safeNum_finite)
next
  show "safeNum u = (if isFinite (ToNumber u) then ToNumber u else Fin 0)"
    by (rule safeNum_ToNumber)
next
  assume n: "\<not> isFinite (ToNumber (Str v))"
  then show "installed (setInstalled_onChange k v s) k = Fin 0"
    "plf (setPlf_onChange k v s) k = Fin 0"
    using entry_not_finite[of v k s] by simp_all
next
  assume "own obj (source_name k) = Some x"
  then show "init_record (Store (m(key \<mapsto> Json obj))) key k = x" by (rule init_record_stored)
next
  show "installed0 (setInstalled0_onChange k v t) k = Num (ToNumber (Str v))"
    by (simp add: setInstalled0_onChange_def)
next
  show "plf0 (setPlf0_onChange k v t) k = Num (ToNumber (Str v))"
    by (simp add: setPlf0_onChange_def)
qed

theorem records_coerced_witness:
  "finite_record (installed initial_state) \<and> finite_record (plf initial_state)
   \<and> finite_record (installed (fst (mount
          (Store [LS_INSTALLED \<mapsto> Json (Obj [(''Coal'', Str ''abc'')]),
                  LS_PLF \<mapsto> Json (Obj [(''Coal'', Num (Fin 60))])]) Rejected initial_state)))
   \<and> installed (fst (mount
          (Store [LS_INSTALLED \<mapsto> Json (Obj [(''Coal'', Str ''abc'')]),
                  LS_PLF \<mapsto> Json (Obj [(''Coal'', Num (Fin 60))])]) Rejected initial_state)) Coal
       = Fin 0
   \<and> plf (fst (mount
          (Store [LS_INSTALLED \<mapsto> Json (Obj [(''Coal'', Str ''abc'')]),
                  LS_PLF \<mapsto> Json (Obj [(''Coal'', Num (Fin 60))])]) Rejected initial_state)) Coal
       = Fin 60
   \<and> (\<exists>c. fetch_capacity (Response True (Some capacity_csv_scenario)) = Inr c
          \<and> installed (fst (mount (Store Map.empty) (Response True (Some capacity_csv_scenario))
                              initial_state)) = c
          \<and> c Coal = Fin 50)
   \<and> installed (setInstalled_onChange Coal ''abc'' initial_state) Coal = Fin 0
   \<and> plf (setPlf_onChange Coal ''abc'' initial_state) Coal = Fin 0
   \<and> finite_record (installed (setInstalled_onChange Coal ''abc'' initial_state))
   \<and> finite_record (plf (setPlf_onChange Coal ''abc'' initial_state))
   \<and> safeNum (Str ''abc'') = Fin 0
   \<and> init_record (Store [INST_KEY \<mapsto> Json (Obj [(''Coal'', Num (Fin 5))])]) INST_KEY Coal
       = Num (Fin 5)
   \<and> installed0 (setInstalled0_onChange Coal ''abc'' (initial_state0 (Store Map.empty))) Coal
       = Num NaN
   \<and> plf0 (setPlf0_onChange Coal ''abc'' (initial_state0 (Store Map.empty))) Coal = Num NaN"
proof -
  let ?st = "Store [LS_INSTALLED \<mapsto> Json (Obj [(''Coal'', Str ''abc'')]),
                    LS_PLF \<mapsto> Json (Obj [(''Coal'', Num (Fin 60))])]"
  note T = records_coerced_in_first_variant_only[where s = initial_state and st = ?st
      and net = Rejected and k = Coal and v = "''abc''" and obj = "Obj [(''Coal'', Str ''abc'')]"
      and u = "Str ''abc''" and t = "initial_state0 (Store Map.empty)"]
  note P = records_coerced_in_first_variant_only[where s = initial_state and st = ?st
      and net = Rejected and k = Coal and obj = "Obj [(''Coal'', Num (Fin 60))]"
      and x = "Num (Fin 5)" and m = Map.empty and key = INST_KEY]
  note Q = records_coerced_in_first_variant_only[where k = Coal
      and obj = "Obj [(''Coal'', Num (Fin 5))]" and x = "Num (Fin 5)" and m = Map.empty
      and key = INST_KEY]
  have n: "StringToNumber ''abc'' = NaN"
    by (simp add: parse_number_simps)
  have f1: "finite_record (installed initial_state)"
    using T[THEN conjunct1] .
  have f2: "finite_record (plf initial_state)"
    using T[THEN conjunct2, THEN conjunct1] .
  note inv = T[THEN conjunct2, THEN conjunct2, THEN conjunct1, THEN mp, OF conjI, OF f1 f2]
  have f3: "finite_record (installed (fst (mount ?st Rejected initial_state)))"
    using inv[THEN conjunct1] .
  have f4: "finite_record (installed (setInstalled_onChange Coal ''abc'' initial_state))"
    using inv[THEN conjunct2, THEN conjunct2, THEN conjunct1] .
  have f5: "finite_record (plf (setPlf_onChange Coal ''abc'' initial_state))"
    using inv[THEN conjunct2, THEN conjunct2, THEN conjunct2, THEN conjunct2, THEN conjunct2] .
  have g: "getItem ?st LS_INSTALLED = Inr (Some (Json (Obj [(''Coal'', Str ''abc'')])))"
    by (simp add: LS_INSTALLED_def LS_PLF_def)
  have l: "loadLS ?st LS_INSTALLED \<noteq> None"
    by (simp add: loadLS_def LS_INSTALLED_def LS_PLF_def SOURCES_def)
  have s0: "safeNum (Str ''abc'') = Fin 0"
    using T[THEN conjunct2, THEN conjunct2, THEN conjunct2, THEN conjunct2, THEN conjunct2, THEN conjunct2, THEN conjunct2, THEN conjunct2, THEN conjunct1] by (simp add: n)
  have i0: "installed (fst (mount ?st Rejected initial_state)) Coal = Fin 0"
    using T[THEN conjunct2, THEN conjunct2, THEN conjunct2, THEN conjunct1, THEN mp, OF conjI, OF g l] by (simp add: s0)
  have gp: "getItem ?st LS_PLF = Inr (Some (Json (Obj [(''Coal'', Num (Fin 60))])))"
    by (simp add: LS_INSTALLED_def LS_PLF_def)
  have lp: "loadLS ?st LS_PLF \<noteq> None"
    by (simp add: loadLS_def LS_INSTALLED_def LS_PLF_def SOURCES_def)
  have p60: "plf (fst (mount ?st Rejected initial_state)) Coal = Fin 60"
    using P[THEN conjunct2, THEN conjunct2, THEN conjunct2, THEN conjunct2, THEN conjunct1, THEN mp, OF conjI, OF gp lp] by (simp add: safeNum_Num)
  obtain c where pc: "parseCapacityCSV capacity_csv_scenario = Some c"
    and mc: "map c SOURCES = [Fin 50, Fin 10, Fin 8, Fin 5, Fin 20, Fin 15, Fin 2, Fin 3]"
    using capacity_csv_example by (cases "parseCapacityCSV capacity_csv_scenario") simp_all
  have cc: "c Coal = Fin 50" using mc by (simp add: SOURCES_def)
  have fc: "fetch_capacity (Response True (Some capacity_csv_scenario)) = Inr c"
    by (simp add: fetch_capacity_def pc)
  have le: "loadLS (Store Map.empty) LS_INSTALLED = None"
    by (simp add: loadLS_def)
  have ic: "installed (fst (mount (Store Map.empty) (Response True (Some capacity_csv_scenario))
                              initial_state)) = c"
    using records_coerced_in_first_variant_only[where s = initial_state and st = "Store Map.empty"
        and net = "Response True (Some capacity_csv_scenario)" and k = Coal and c = c,
        THEN conjunct2, THEN conjunct2, THEN conjunct2, THEN conjunct2, THEN conjunct2, THEN conjunct1, THEN mp, OF conjI, OF le fc]
    by (rule conjunct1)
  have csv: "\<exists>c. fetch_capacity (Response True (Some capacity_csv_scenario)) = Inr c
          \<and> installed (fst (mount (Store Map.empty) (Response True (Some capacity_csv_scenario))
                              initial_state)) = c
          \<and> c Coal = Fin 50"
    using fc ic cc by (intro exI[of _ c] conjI)
  have nf: "\<not> isFinite (ToNumber (Str ''abc''))" by (simp add: n)
  note e = T[THEN conjunct2, THEN conjunct2, THEN conjunct2, THEN conjunct2, THEN conjunct2, THEN conjunct2, THEN conjunct2, THEN conjunct2, THEN conjunct2, THEN conjunct1, THEN mp, OF nf]
  have o: "own (Obj [(''Coal'', Num (Fin 5))]) (source_name Coal) = Some (Num (Fin 5))" by simp
  have ir: "init_record (Store [INST_KEY \<mapsto> Json (Obj [(''Coal'', Num (Fin 5))])]) INST_KEY Coal
       = Num (Fin 5)"
    using Q[THEN conjunct2, THEN conjunct2, THEN conjunct2, THEN conjunct2, THEN conjunct2, THEN conjunct2, THEN conjunct2, THEN conjunct2, THEN conjunct2, THEN conjunct2, THEN conjunct1, THEN mp, OF o] .
  have h1: "installed0 (setInstalled0_onChange Coal ''abc'' (initial_state0 (Store Map.empty))) Coal
       = Num NaN"
    using T[THEN conjunct2, THEN conjunct2, THEN conjunct2, THEN conjunct2, THEN conjunct2, THEN conjunct2, THEN conjunct2, THEN conjunct2, THEN conjunct2, THEN conjunct2, THEN conjunct2, THEN conjunct1] by (simp add: n)
  have h2: "plf0 (setPlf0_onChange Coal ''abc'' (initial_state0 (Store Map.empty))) Coal = Num NaN"
    using T[THEN conjunct2, THEN conjunct2, THEN conjunct2, THEN conjunct2, THEN conjunct2, THEN conjunct2, THEN conjunct2, THEN conjunct2, THEN conjunct2, THEN conjunct2, THEN conjunct2, THEN conjunct2] by (simp add: n)
  show ?thesis
    apply (intro conjI)
                 apply (rule f1)
                apply (rule f2)
               apply (rule f3)
              apply (rule i0)
             apply (rule p60)
            apply (rule csv)
           apply (rule e[THEN conjunct1])
          apply (rule e[THEN conjunct2])
         apply (rule f4)
        apply (rule f5)
       apply (rule s0)
      apply (rule ir)
     apply (rule h1)
    apply (rule h2)
    done
qed

section \<open>Normalising a month\<close>

lemma month_key_is_key:
  assumes "digits_between 1 2 m" "digits_between 4 4 y"
  shows "is_month_key (month_key m y)"
    and "take 2 (month_key m y) = padStart 2 CHR ''0'' (String_nat (digits_val m))"
    and "drop 3 (month_key m y) = y"
    and "key_month (month_key m y) = digits_val m"
proof -
  have "digits_val m < 10 ^ length m"
    using assms(1) by (simp add: digits_between_def digits_val_bound)
  also have "\<dots> \<le> 10 ^ 2"
    using assms(1) by (intro power_increasing) (simp_all add: digits_between_def)
  finally have n: "digits_val m < 100" by simp
  note t = two_digits[OF n]
  define mm where "mm = padStart 2 CHR ''0'' (String_nat (digits_val m))"
  have mm: "length mm = 2" "list_all is_digit mm" "digits_val mm = digits_val m"
    using t by (simp_all add: mm_def)
  have k: "month_key m y = mm @ CHR ''/'' # y" by (simp add: month_key_def mm_def)
  have y: "length y = 4" "list_all is_digit y" using assms(2) by (simp_all add: digits_between_def)
  show "is_month_key (month_key m y)"
    using mm y by (simp add: k is_month_key_def nth_append)
  show "take 2 (month_key m y) = padStart 2 CHR ''0'' (String_nat (digits_val m))"
    using mm by (simp add: k mm_def[symmetric])
  show "drop 3 (month_key m y) = y"
    using mm by (simp add: k)
  show "key_month (month_key m y) = digits_val m"
    using mm by (simp add: k key_month_def)
qed

lemma month_key_parts:
  assumes "is_month_key k"
  shows "k = take 2 k @ CHR ''/'' # drop 3 k"
    and "length (take 2 k) = 2" and "list_all is_digit (take 2 k)"
    and "length (drop 3 k) = 4" and "list_all is_digit (drop 3 k)"
proof -
  have l: "length k = 7" and s: "k ! 2 = CHR ''/''" using assms by (simp_all add: is_month_key_def)
  have "k = take 2 k @ drop 2 k" by simp
  also have "drop 2 k = k ! 2 # drop 3 k"
    using Cons_nth_drop_Suc[of 2 k] l by simp
  finally show "k = take 2 k @ CHR ''/'' # drop 3 k" using s by simp
  show "length (take 2 k) = 2" "length (drop 3 k) = 4" using l by simp_all
  show "list_all is_digit (take 2 k)" "list_all is_digit (drop 3 k)"
    using assms by (simp_all add: is_month_key_def)
qed

lemma digits_no_char: "list_all is_digit s \<Longrightarrow> \<not> is_digit c \<Longrightarrow> c \<notin> set s"
  by (auto simp add: list_all_iff)

lemma slash_no_digit: "\<not> is_digit CHR ''/''"
  by (simp add: is_digit_def)

lemma split_month_key:
  assumes "is_month_key k"
  shows "split_on CHR ''/'' k = [take 2 k, drop 3 k]"
proof -
  note p = month_key_parts[OF assms]
  have a: "CHR ''/'' \<notin> set (take 2 k)" using p(3) slash_no_digit by (rule digits_no_char)
  have b: "CHR ''/'' \<notin> set (drop 3 k)" using p(5) slash_no_digit by (rule digits_no_char)
  have "split_on CHR ''/'' (take 2 k @ CHR ''/'' # drop 3 k) = take 2 k # split_on CHR ''/'' (drop 3 k)"
    using a by (rule split_on_app)
  then show ?thesis using p(1) b by (simp add: split_on_none)
qed

lemma month_key_no_ws:
  assumes "is_month_key k"
  shows "trim k = k"
proof -
  note p = month_key_parts[OF assms]
  have "\<not> is_ws CHR ''/''" by (simp add: is_ws_def)
  moreover have "\<forall>c \<in> set (take 2 k). \<not> is_ws c" "\<forall>c \<in> set (drop 3 k). \<not> is_ws c"
    using p(3,5) by (simp_all add: list_all_iff is_digit_not_special)
  ultimately have "\<forall>c \<in> set (take 2 k @ CHR ''/'' # drop 3 k). \<not> is_ws c"
    by auto
  then have "\<forall>c \<in> set k. \<not> is_ws c" using p(1) by simp
  then show ?thesis by (rule trim_no_ws)
qed

lemma normalizeMonth_key:
  assumes "is_month_key k"
  shows "normalizeMonth (Some k) = Some k"
proof -
  note p = month_key_parts[OF assms]
  have ne: "k \<noteq> []" using assms by (auto simp add: is_month_key_def)
  have m: "match_month_year k = Some (take 2 k, drop 3 k)"
    using p by (simp add: match_month_year_def split_month_key[OF assms] digits_between_def)
  have "month_key (take 2 k) (drop 3 k) = take 2 k @ CHR ''/'' # drop 3 k"
    using pad_two_digits[OF p(2,3)] by (simp add: month_key_def)
  then have "month_key (take 2 k) (drop 3 k) = k" using p(1) by simp
  then show ?thesis
    using ne m by (simp add: normalizeMonth_def month_key_no_ws[OF assms])
qed

lemma match_month_year_Some:
  "match_month_year t = Some (m, y) \<Longrightarrow> digits_between 1 2 m \<and> digits_between 4 4 y"
  by (auto simp add: match_month_year_def split: list.splits if_splits)

lemma match_day_month_year_Some:
  "match_day_month_year sep t = Some (d, m, y) \<Longrightarrow> digits_between 1 2 m \<and> digits_between 4 4 y"
  by (auto simp add: match_day_month_year_def split: list.splits if_splits)

lemma normalizeMonth_Some:
  assumes "normalizeMonth x = Some k"
  shows "\<exists>m y. k = month_key m y \<and> digits_between 1 2 m \<and> digits_between 4 4 y"
proof -
  from assms obtain s where x: "x = Some s" "s \<noteq> []"
    by (auto simp add: normalizeMonth_def split: option.splits if_splits)
  show ?thesis
  proof (cases "match_month_year (trim s)")
    case (Some a)
    obtain m y where a: "a = (m, y)" by (cases a)
    have "k = month_key m y" using assms x Some a by (simp add: normalizeMonth_def)
    moreover have "digits_between 1 2 m \<and> digits_between 4 4 y"
      by (rule match_month_year_Some[of "trim s"]) (simp add: Some a)
    ultimately show ?thesis by blast
  next
    case n1: None
    show ?thesis
    proof (cases "match_day_month_year CHR ''/'' (trim s)")
      case (Some a)
      obtain d m y where a: "a = (d, m, y)" by (cases a)
      have "k = month_key m y" using assms x n1 Some a by (simp add: normalizeMonth_def)
      moreover have "digits_between 1 2 m \<and> digits_between 4 4 y"
        by (rule match_day_month_year_Some[of "CHR ''/''" "trim s" d]) (simp add: Some a)
      ultimately show ?thesis by blast
    next
      case n2: None
      show ?thesis
      proof (cases "match_day_month_year CHR ''-'' (trim s)")
        case (Some a)
        obtain d m y where a: "a = (d, m, y)" by (cases a)
        have "k = month_key m y" using assms x n1 n2 Some a by (simp add: normalizeMonth_def)
        moreover have "digits_between 1 2 m \<and> digits_between 4 4 y"
          by (rule match_day_month_year_Some[of "CHR ''-''" "trim s" d]) (simp add: Some a)
        ultimately show ?thesis by blast
      next
        case None
        then show ?thesis using assms x n1 n2 by (simp add: normalizeMonth_def)
      qed
    qed
  qed
qed

lemma normalizeMonth_is_key: "normalizeMonth x = Some k \<Longrightarrow> is_month_key k"
  using normalizeMonth_Some[of x k] month_key_is_key(1) by auto


lemma match_month_year_shape:
  "match_month_year t \<noteq> None \<longleftrightarrow> shape [1, 4] CHR ''/'' t \<or> shape [2, 4] CHR ''/'' t"
proof (cases "split_on CHR ''/'' t")
  case Nil
  then show ?thesis by (simp add: match_month_year_def shape_def)
next
  case (Cons m r)
  note c1 = this
  show ?thesis
  proof (cases r)
    case Nil
    then show ?thesis using c1 by (simp add: match_month_year_def shape_def)
  next
    case (Cons y r')
    then show ?thesis
      using c1 by (cases r') (auto simp add: match_month_year_def shape_def digits_between_def)
  qed
qed

lemma match_day_month_year_shape:
  "match_day_month_year sep t \<noteq> None \<longleftrightarrow>
     shape [1, 1, 4] sep t \<or> shape [1, 2, 4] sep t \<or> shape [2, 1, 4] sep t \<or> shape [2, 2, 4] sep t"
proof (cases "split_on sep t")
  case Nil
  then show ?thesis by (simp add: match_day_month_year_def shape_def)
next
  case (Cons d r)
  note c1 = this
  show ?thesis
  proof (cases r)
    case Nil
    then show ?thesis using c1 by (simp add: match_day_month_year_def shape_def)
  next
    case (Cons m r')
    note c2 = this
    show ?thesis
    proof (cases r')
      case Nil
      then show ?thesis using c1 c2 by (simp add: match_day_month_year_def shape_def)
    next
      case (Cons y r'')
      then show ?thesis
        using c1 c2 by (cases r'') (auto simp add: match_day_month_year_def shape_def digits_between_def)
    qed
  qed
qed

lemma normalizeMonth_None_iff: "normalizeMonth (Some s) = None \<longleftrightarrow> \<not> code_shape s"
proof (cases "s = []")
  case True
  then show ?thesis by (simp add: normalizeMonth_def code_shape_def shape_def trim_def)
next
  case False
  have n: "normalizeMonth (Some s) = None \<longleftrightarrow>
      match_month_year (trim s) = None \<and> match_day_month_year CHR ''/'' (trim s) = None
      \<and> match_day_month_year CHR ''-'' (trim s) = None"
    using False by (auto simp add: normalizeMonth_def Let_def split: option.splits)
  have m1: "match_month_year (trim s) = None \<longleftrightarrow>
      \<not> (shape [1, 4] CHR ''/'' (trim s) \<or> shape [2, 4] CHR ''/'' (trim s))"
    using match_month_year_shape[of "trim s"] by blast
  have m2: "match_day_month_year sep (trim s) = None \<longleftrightarrow>
      \<not> (shape [1, 1, 4] sep (trim s) \<or> shape [1, 2, 4] sep (trim s)
         \<or> shape [2, 1, 4] sep (trim s) \<or> shape [2, 2, 4] sep (trim s))" for sep
    using match_day_month_year_shape[of sep "trim s"] by blast
  show ?thesis unfolding n m1 m2 by (auto simp add: code_shape_def)
qed

lemma shape_no_ws:
  assumes "shape ns sep s" "\<not> is_ws sep"
  shows "trim s = s"
proof (rule trim_no_ws, rule ballI)
  fix c assume "c \<in> set s"
  then have "c = sep \<or> (\<exists>p \<in> set (split_on sep s). c \<in> set p)" by (rule split_on_chars)
  moreover have "\<forall>p \<in> set (split_on sep s). \<forall>x \<in> set p. is_digit x"
    using assms(1) by (simp add: shape_def list_all_iff)
  ultimately show "\<not> is_ws c" using assms(2) is_digit_not_special by blast
qed

lemma accepted_shape_code_shape: "accepted_shape s \<Longrightarrow> code_shape s"
proof -
  assume a: "accepted_shape s"
  have w: "\<not> is_ws CHR ''/''" "\<not> is_ws CHR ''-''" by (simp_all add: is_ws_def)
  have "trim s = s" using a w shape_no_ws by (auto simp add: accepted_shape_def)
  then show ?thesis using a by (auto simp add: accepted_shape_def code_shape_def)
qed


lemmas month_eval_simps =
  normalizeMonth_def match_month_year_def match_day_month_year_def digits_between_def month_key_def
  padStart_def String_nat_digit digit_char_def digits_val_def radix_val_def digit_val_def
  is_digit_def trim_def is_ws_def shape_def

text \<open>
  C7, as stated, fails in its last part: a date with dashes and a day or month of one
  digit, such as \<open>1-2-2023\<close>, has none of the five shapes (of the dash form the
  specification lists only \<open>DD-MM-YYYY\<close>), yet the third regular expression,
  \<open>^(\d{1,2})-(\d{1,2})-(\d{4})$\<close>, accepts it and it normalises to \<open>02/2023\<close>.
\<close>

theorem normalizeMonth_counterexample:
  "\<not> accepted_shape ''1-2-2023'' \<and> normalizeMonth (Some ''1-2-2023'') = Some ''02/2023''"
  by (simp add: accepted_shape_def month_eval_simps)

text \<open>
  C7, amended. Whatever \<open>normalizeMonth\<close> returns other than the sentinel is a month
  key, two digits, a slash and four digits, and normalising is idempotent on every
  argument. Every string of the five shapes normalises to a key. The sentinel is
  returned exactly for the strings that, trimmed, are neither one or two digits, a
  slash and four digits, nor one or two digits, one or two digits and four digits
  separated by two slashes or by two dashes; \<open>undefined\<close> and \<open>null\<close> give the sentinel.
\<close>

theorem normalizeMonth_canonical_idempotent:
  "(normalizeMonth (Some s) = Some k \<longrightarrow> is_month_key k \<and> normalizeMonth (Some k) = Some k)
   \<and> normalizeMonth (normalizeMonth x) = normalizeMonth x
   \<and> (accepted_shape s \<longrightarrow> (\<exists>k. normalizeMonth (Some s) = Some k))
   \<and> (normalizeMonth (Some s) = None \<longleftrightarrow> \<not> code_shape s)
   \<and> normalizeMonth None = None"
proof (intro conjI impI)
  assume a: "normalizeMonth (Some s) = Some k"
  then show "is_month_key k" by (rule normalizeMonth_is_key)
  then show "normalizeMonth (Some k) = Some k" by (rule normalizeMonth_key)
next
  show "normalizeMonth (normalizeMonth x) = normalizeMonth x"
  proof (cases "normalizeMonth x")
    case None
    then show ?thesis by (simp add: normalizeMonth_def)
  next
    case (Some k)
    then have "is_month_key k" by (rule normalizeMonth_is_key)
    then show ?thesis using Some by (simp add: normalizeMonth_key)
  qed
next
  assume "accepted_shape s"
  then have "code_shape s" by (rule accepted_shape_code_shape)
  then have "normalizeMonth (Some s) \<noteq> None" by (simp add: normalizeMonth_None_iff)
  then show "\<exists>k. normalizeMonth (Some s) = Some k" by auto
next
  show "normalizeMonth (Some s) = None \<longleftrightarrow> \<not> code_shape s" by (rule normalizeMonth_None_iff)
next
  show "normalizeMonth None = None" by (simp add: normalizeMonth_def)
qed

theorem normalizeMonth_witness:
  "normalizeMonth (Some ''31/12/2022'') = Some ''12/2022''
   \<and> is_month_key ''12/2022''
   \<and> normalizeMonth (Some ''12/2022'') = Some ''12/2022''
   \<and> accepted_shape ''7/2023''
   \<and> (\<exists>k. normalizeMonth (Some ''7/2023'') = Some k)
   \<and> \<not> code_shape ''2023-01-13''
   \<and> normalizeMonth (Some ''2023-01-13'') = None"
proof -
  have s12: "String_nat 12 = ''12''"
    using String_nat_step[of 1 2] by (simp add: String_nat_digit digit_char_def)
  have e: "normalizeMonth (Some ''31/12/2022'') = Some ''12/2022''"
    by (simp add: month_eval_simps s12)
  have a: "accepted_shape ''7/2023''"
    by (simp add: accepted_shape_def month_eval_simps)
  have n: "\<not> code_shape ''2023-01-13''"
    by (simp add: code_shape_def month_eval_simps)
  note t1 = normalizeMonth_canonical_idempotent[of "''31/12/2022''" "''12/2022''", THEN conjunct1, THEN mp, OF e]
  note t2 = normalizeMonth_canonical_idempotent[of "''7/2023''", THEN conjunct2, THEN conjunct2,
      THEN conjunct1, THEN mp, OF a]
  note t3 = normalizeMonth_canonical_idempotent[of "''2023-01-13''", THEN conjunct2, THEN conjunct2,
      THEN conjunct2, THEN conjunct1, THEN iffD2, OF n]
  show ?thesis
    using e t1 a t2 n t3 by (intro conjI) (erule conjunct1 conjunct2 | assumption)+
qed

section \<open>A ledger without a month column\<close>

lemma findIndex_None: "findIndex P xs = None \<longleftrightarrow> \<not> list_ex P xs"
  by (induction xs) auto

lemma load_history_cases:
  "(\<exists>data. load_history net = Inr data \<and> history_effect net st = st\<lparr>history := data\<rparr>)
   \<or> (\<exists>e. load_history net = Inl e \<and> history_effect net st = st\<lparr>err := Some not_loaded\<rparr>)"
  by (cases "load_history net") (simp_all add: history_effect_def)

lemma load_history_no_month:
  assumes "parseCSV txt = Inr (header, rows)" "\<not> has_month_column header"
  shows "load_history (Response True (Some txt)) = Inl Error"
proof -
  have "findIndex (\<lambda>h. toLowerCase (trim h) = ''month'') header = None"
    using assms(2) by (simp add: findIndex_None has_month_column_def)
  then show ?thesis using assms(1) by (simp add: load_history_def)
qed

text \<open>
  C5. When the text of the historical CSV parses and its header has no month column,
  the \<open>try\<close> block of the effect throws at the check of the column index; the \<open>catch\<close>
  sets the advisory text and nothing else, so the ledger is what it was, empty. Every
  outcome of the request ends either in the ledger being set or in the advisory: the
  effect has no third outcome, in which an exception would leave it.
\<close>

theorem missing_month_column_not_loaded:
  "(parseCSV txt = Inr (header, rows) \<and> \<not> has_month_column header \<longrightarrow>
      load_history (Response True (Some txt)) = Inl Error
      \<and> history_effect (Response True (Some txt)) st = st\<lparr>err := Some not_loaded\<rparr>
      \<and> history (history_effect (Response True (Some txt)) (initial_state0 sto)) = []
      \<and> err (history_effect (Response True (Some txt)) (initial_state0 sto)) = Some not_loaded)
   \<and> ((\<exists>data. load_history net = Inr data \<and> history_effect net st = st\<lparr>history := data\<rparr>)
       \<or> (\<exists>e. load_history net = Inl e \<and> history_effect net st = st\<lparr>err := Some not_loaded\<rparr>))
   \<and> (has_month_column header
        \<longleftrightarrow> findIndex (\<lambda>h. toLowerCase (trim h) = ''month'') header \<noteq> None)"
proof (intro conjI impI)
  assume a: "parseCSV txt = Inr (header, rows) \<and> \<not> has_month_column header"
  then show l: "load_history (Response True (Some txt)) = Inl Error"
    using load_history_no_month by blast
  then show "history_effect (Response True (Some txt)) st = st\<lparr>err := Some not_loaded\<rparr>"
    by (simp add: history_effect_def)
  from l show "history (history_effect (Response True (Some txt)) (initial_state0 sto)) = []"
    by (simp add: history_effect_def initial_state0_def)
  from l show "err (history_effect (Response True (Some txt)) (initial_state0 sto)) = Some not_loaded"
    by (simp add: history_effect_def)
next
  show "(\<exists>data. load_history net = Inr data \<and> history_effect net st = st\<lparr>history := data\<rparr>)
       \<or> (\<exists>e. load_history net = Inl e \<and> history_effect net st = st\<lparr>err := Some not_loaded\<rparr>)"
    by (rule load_history_cases)
next
  show "has_month_column header
        \<longleftrightarrow> findIndex (\<lambda>h. toLowerCase (trim h) = ''month'') header \<noteq> None"
    by (simp add: findIndex_None has_month_column_def)
qed

theorem missing_month_column_witness:
  "parseCSV (''Date,Coal'' @ [CHR 0x0A] @ ''01/2023,5'') = Inr ([''Date'', ''Coal''], [[''01/2023'', ''5'']])
   \<and> \<not> has_month_column [''Date'', ''Coal'']
   \<and> load_history (Response True (Some (''Date,Coal'' @ [CHR 0x0A] @ ''01/2023,5''))) = Inl Error
   \<and> history (history_effect (Response True (Some (''Date,Coal'' @ [CHR 0x0A] @ ''01/2023,5'')))
        (initial_state0 (Store Map.empty))) = []
   \<and> err (history_effect (Response True (Some (''Date,Coal'' @ [CHR 0x0A] @ ''01/2023,5'')))
        (initial_state0 (Store Map.empty))) = Some not_loaded
   \<and> has_month_column [''Coal'', '' MONTH '']"
proof -
  have p: "parseCSV (''Date,Coal'' @ [CHR 0x0A] @ ''01/2023,5'')
      = Inr ([''Date'', ''Coal''], [[''01/2023'', ''5'']])"
    by (simp add: parseCSV_def parseLine_def trim_def is_ws_def)
  have h: "\<not> has_month_column [''Date'', ''Coal'']"
    by (simp add: has_month_column_def toLowerCase_def trim_def is_ws_def)
  have m: "has_month_column [''Coal'', '' MONTH '']"
    by (simp add: has_month_column_def toLowerCase_def trim_def is_ws_def)
  note t = missing_month_column_not_loaded[of "''Date,Coal'' @ [CHR 0x0A] @ ''01/2023,5''"
      "[''Date'', ''Coal'']" "[[''01/2023'', ''5'']]" _ "Store Map.empty",
      THEN conjunct1, THEN mp, OF conjI, OF p h]
  show ?thesis
    apply (intro conjI)
         apply (rule p)
        apply (rule h)
       apply (rule t[THEN conjunct1])
      apply (rule t[THEN conjunct2, THEN conjunct2, THEN conjunct1])
     apply (rule t[THEN conjunct2, THEN conjunct2, THEN conjunct2])
    apply (rule m)
    done
qed

section \<open>The numbers of a month key\<close>

lemma takeWhile_digits: "list_all is_digit s \<Longrightarrow> takeWhile is_digit s = s"
  by (induction s) auto

lemma dropWhile_digits: "list_all is_digit s \<Longrightarrow> dropWhile is_digit s = []"
  by (induction s) auto

lemma StringToNumber_digits:
  assumes "s \<noteq> []" "list_all is_digit s"
  shows "StringToNumber s = fl (of_nat (digits_val s))"
proof -
  obtain c r where s: "s = c # r" using assms(1) by (cases s) auto
  have c: "is_digit c" using assms(2) s by simp
  have t: "trim s = s"
    using assms(2) is_digit_not_special by (intro trim_no_ws) (auto simp add: list_all_iff)
  have n: "NonDecimalIntegerLiteral s = None"
  proof (cases r)
    case Nil
    then show ?thesis using s by (simp add: NonDecimalIntegerLiteral_def)
  next
    case (Cons p ds)
    then have "is_digit p" using assms(2) s by simp
    then have "p \<notin> set ''xXoObB''" by (auto simp add: is_digit_def)
    then show ?thesis using s Cons by (auto simp add: NonDecimalIntegerLiteral_def)
  qed
  have i: "s \<noteq> ''Infinity''" using c s by (auto simp add: is_digit_def)
  have u: "StrUnsignedDecimalLiteral s = Some (fl (of_nat (digits_val s)))"
    using i assms
    by (simp add: StrUnsignedDecimalLiteral_def takeWhile_digits dropWhile_digits
        ExponentPart_def pow10_def Let_def)
  have "c \<noteq> CHR ''+''" "c \<noteq> CHR ''-''" using c by (auto simp add: is_digit_def)
  then have d: "StrDecimalLiteral s = Some (fl (of_nat (digits_val s)))"
    using u s by (simp add: StrDecimalLiteral_def)
  show ?thesis using t n d assms(1) by (simp add: StringToNumber_def)
qed

lemma key_numbers_bound:
  assumes "is_month_key k"
  shows "key_month k < 100" "key_year k < 10000"
  using month_key_parts[OF assms] digits_val_bound[of "take 2 k"] digits_val_bound[of "drop 3 k"]
  by (simp_all add: key_month_def key_year_def)

lemma month_parts_key:
  assumes "is_month_key k"
  shows "month_parts k = (Some (Fin (of_nat (key_month k))), Some (Fin (of_nat (key_year k))))"
proof -
  note p = month_key_parts[OF assms]
  have a: "take 2 k \<noteq> []" "drop 3 k \<noteq> []" using p(2) p(4) by auto
  have m: "StringToNumber (take 2 k) = Fin (of_nat (key_month k))"
    using StringToNumber_digits[OF a(1) p(3)] key_numbers_bound(1)[OF assms]
      fl_of_nat[of "key_month k"]
    by (simp add: key_month_def)
  have y: "StringToNumber (drop 3 k) = Fin (of_nat (key_year k))"
    using StringToNumber_digits[OF a(2) p(5)] key_numbers_bound(2)[OF assms]
      fl_of_nat[of "key_year k"]
    by (simp add: key_year_def)
  show ?thesis
    by (simp add: month_parts_def split_month_key[OF assms] nth_opt_def m y del: take_eq_Nil)
qed

lemma js_minus_nat:
  assumes "a < 2 ^ 53" "b < 2 ^ 53"
  shows "js_minus (Fin (of_nat a)) (Fin (of_nat b)) = Fin (of_int (int a - int b))"
proof -
  have "\<bar>int a - int b\<bar> < 2 ^ 53" using assms by auto
  then have "fl (of_int (int a - int b)) = Fin (of_int (int a - int b))" by (rule fl_of_int)
  then show ?thesis by simp
qed

lemma compareMonth_keys:
  assumes "is_month_key a" "is_month_key b"
  shows "compareMonth a b
    = Fin (of_int (if key_year a \<noteq> key_year b then int (key_year a) - int (key_year b)
                   else int (key_month a) - int (key_month b)))"
proof -
  note ba = key_numbers_bound[OF assms(1)]
  note bb = key_numbers_bound[OF assms(2)]
  have y: "js_minus (Fin (of_nat (key_year a))) (Fin (of_nat (key_year b)))
      = Fin (of_int (int (key_year a) - int (key_year b)))"
    using ba bb by (intro js_minus_nat) simp_all
  have m: "js_minus (Fin (of_nat (key_month a))) (Fin (of_nat (key_month b)))
      = Fin (of_int (int (key_month a) - int (key_month b)))"
    using ba bb by (intro js_minus_nat) simp_all
  show ?thesis
    using y m
    by (simp add: compareMonth_def month_parts_key[OF assms(1)] month_parts_key[OF assms(2)]
        strict_eq_def number_of_def del: js_minus.simps)
qed

lemma compareMonth_positive:
  assumes "is_month_key a" "is_month_key b"
  shows "js_less (Fin 0) (compareMonth a b) \<longleftrightarrow> \<not> month_le a b"
  by (auto simp add: compareMonth_keys[OF assms] month_le_def)

lemma month_le_total: "\<not> month_le a b \<Longrightarrow> month_le b a"
  by (auto simp add: month_le_def)

lemma month_le_trans: "month_le a b \<Longrightarrow> month_le b c \<Longrightarrow> month_le a c"
  by (auto simp add: month_le_def)

section \<open>The sorted ledger\<close>

lemma mset_insert_sorted: "mset (insert_sorted cmp x ys) = add_mset x (mset ys)"
  by (induction ys) auto

lemma mset_Array_sort: "mset (Array_sort cmp xs) = mset xs"
  by (induction xs) (simp_all add: Array_sort_def mset_insert_sorted)

lemma set_insert_sorted: "set (insert_sorted cmp x ys) = insert x (set ys)"
  using mset_insert_sorted[of cmp x ys, THEN arg_cong, of set_mset] by simp

lemma sorted_insert_sorted:
  assumes "is_month_key (month x)" "\<forall>y \<in> set ys. is_month_key (month y)"
    "sorted_wrt (\<lambda>a b. month_le (month a) (month b)) ys"
  shows "sorted_wrt (\<lambda>a b. month_le (month a) (month b))
           (insert_sorted (\<lambda>a b. compareMonth (month a) (month b)) x ys)"
  using assms
proof (induction ys)
  case Nil
  then show ?case by simp
next
  case (Cons y ys)
  have ky: "is_month_key (month y)" using Cons.prems(2) by simp
  show ?case
  proof (cases "month_le (month x) (month y)")
    case True
    have "\<forall>z \<in> set ys. month_le (month x) (month z)"
      using Cons.prems(3) True month_le_trans by auto
    then show ?thesis
      using True Cons.prems(3) by (simp add: compareMonth_positive[OF Cons.prems(1) ky])
  next
    case False
    have yx: "month_le (month y) (month x)" using False by (rule month_le_total)
    have ih: "sorted_wrt (\<lambda>a b. month_le (month a) (month b))
           (insert_sorted (\<lambda>a b. compareMonth (month a) (month b)) x ys)"
      using Cons.IH Cons.prems by simp
    have "\<forall>z \<in> set (insert_sorted (\<lambda>a b. compareMonth (month a) (month b)) x ys).
            month_le (month y) (month z)"
      using Cons.prems(3) yx by (auto simp add: set_insert_sorted)
    then show ?thesis
      using False ih by (simp add: compareMonth_positive[OF Cons.prems(1) ky])
  qed
qed

lemma sorted_Array_sort:
  assumes "\<forall>y \<in> set xs. is_month_key (month y)"
  shows "sorted_wrt (\<lambda>a b. month_le (month a) (month b))
           (Array_sort (\<lambda>a b. compareMonth (month a) (month b)) xs)"
  using assms
proof (induction xs)
  case Nil
  then show ?case by (simp add: Array_sort_def)
next
  case (Cons x xs)
  have s: "set (Array_sort (\<lambda>a b. compareMonth (month a) (month b)) xs) = set xs"
    using mset_Array_sort[of "\<lambda>a b. compareMonth (month a) (month b)" xs, THEN arg_cong, of set_mset]
    by simp
  have "sorted_wrt (\<lambda>a b. month_le (month a) (month b))
      (insert_sorted (\<lambda>a b. compareMonth (month a) (month b)) x
         (Array_sort (\<lambda>a b. compareMonth (month a) (month b)) xs))"
    using Cons s by (intro sorted_insert_sorted) simp_all
  then show ?case by (simp add: Array_sort_def)
qed

lemma collect_months:
  "map month (collect header mIdx rows) = List.map_filter (\<lambda>r. normalizeMonth (nth_opt r mIdx)) rows"
  by (induction rows) (simp_all add: List.map_filter_simps split: option.splits)

lemma collect_keys: "\<forall>e \<in> set (collect header mIdx rows). is_month_key (month e)"
proof -
  have "\<forall>k \<in> set (map month (collect header mIdx rows)). is_month_key k"
    unfolding collect_months
    by (auto simp add: List.map_filter_def normalizeMonth_is_key)
  then show ?thesis by simp
qed

lemma load_history_Inr:
  assumes "load_history net = Inr data"
  shows "\<exists>header mIdx rows.
           data = Array_sort (\<lambda>a b. compareMonth (month a) (month b)) (collect header mIdx rows)"
  using assms
  apply (auto simp add: load_history_def split: response.splits if_splits option.splits sum.splits)
  apply (intro exI)
  apply (rule refl)
  done

lemma load_history_sorted:
  assumes "load_history net = Inr data"
  shows "sorted_wrt month_le (map month data)" "list_all is_month_key (map month data)"
proof -
  obtain header mIdx rows where
    d: "data = Array_sort (\<lambda>a b. compareMonth (month a) (month b)) (collect header mIdx rows)"
    using load_history_Inr[OF assms] by auto
  have "sorted_wrt (\<lambda>a b. month_le (month a) (month b)) data"
    unfolding d by (rule sorted_Array_sort) (rule collect_keys)
  then show "sorted_wrt month_le (map month data)" by (simp add: sorted_wrt_map)
  have "set data = set (collect header mIdx rows)"
    using mset_Array_sort[of "\<lambda>a b. compareMonth (month a) (month b)" "collect header mIdx rows",
        THEN arg_cong, of set_mset] d
    by simp
  then show "list_all is_month_key (map month data)"
    using collect_keys[of header mIdx rows] by (simp add: list_all_iff)
qed

lemma load_history_rows:
  assumes "parseCSV txt = Inr (header, rows)"
    "findIndex (\<lambda>h. toLowerCase (trim h) = ''month'') header = Some mIdx"
  shows "load_history (Response True (Some txt))
    = Inr (Array_sort (\<lambda>a b. compareMonth (month a) (month b)) (collect header mIdx rows))"
  using assms by (simp add: load_history_def)

lemma history_scenario_parsed:
  "parseCSV history_csv_scenario
    = Inr ([''Month'', ''Coal''],
           [[''01/2023'', ''1''], [''31/12/2022'', ''2''], [''13-01-2023'', ''3'']])"
  by (simp add: history_csv_scenario_def parseCSV_def parseLine_def trim_def is_ws_def)

lemma history_scenario_month_column:
  "findIndex (\<lambda>h. toLowerCase (trim h) = ''month'') [''Month'', ''Coal''] = Some 0"
  by (simp add: toLowerCase_def trim_def is_ws_def)

lemma history_scenario_loaded:
  "\<exists>data. load_history (Response True (Some history_csv_scenario)) = Inr data
     \<and> map month data = [''12/2022'', ''01/2023'', ''01/2023'']
     \<and> map (\<lambda>e. vals e Coal) data = [Fin 2, Fin 1, Fin 3]"
proof -
  let ?header = "[''Month'', ''Coal'']"
  let ?cmp = "\<lambda>a b. compareMonth (month a) (month b)"
  let ?e1 = "\<lparr>month = ''01/2023'', vals = row_values ?header [''01/2023'', ''1'']\<rparr>"
  let ?e2 = "\<lparr>month = ''12/2022'', vals = row_values ?header [''31/12/2022'', ''2'']\<rparr>"
  let ?e3 = "\<lparr>month = ''01/2023'', vals = row_values ?header [''13-01-2023'', ''3'']\<rparr>"
  have s12: "String_nat 12 = ''12''"
    using String_nat_step[of 1 2] by (simp add: String_nat_digit digit_char_def)
  have n1: "normalizeMonth (Some ''01/2023'') = Some ''01/2023''"
    by (simp add: month_eval_simps)
  have n2: "normalizeMonth (Some ''31/12/2022'') = Some ''12/2022''"
    by (simp add: month_eval_simps s12)
  have n3: "normalizeMonth (Some ''13-01-2023'') = Some ''01/2023''"
    by (simp add: month_eval_simps)
  have c: "collect ?header 0 [[''01/2023'', ''1''], [''31/12/2022'', ''2''], [''13-01-2023'', ''3'']]
      = [?e1, ?e2, ?e3]"
    by (simp add: nth_opt_def n1 n2 n3)
  have k: "is_month_key ''01/2023''" "is_month_key ''12/2022''"
    by (simp_all add: is_month_key_def is_digit_def)
  have le: "month_le ''12/2022'' ''01/2023''" "\<not> month_le ''01/2023'' ''12/2022''"
    "month_le ''01/2023'' ''01/2023''"
    by (simp_all add: month_le_def key_year_def key_month_def digits_val_def radix_val_def
        digit_val_def)
  have p: "\<not> js_less (Fin 0) (compareMonth ''12/2022'' ''01/2023'')"
    "js_less (Fin 0) (compareMonth ''01/2023'' ''12/2022'')"
    "\<not> js_less (Fin 0) (compareMonth ''01/2023'' ''01/2023'')"
    using le by (simp_all add: compareMonth_positive k)
  have srt: "Array_sort ?cmp [?e1, ?e2, ?e3] = [?e2, ?e1, ?e3]"
    by (simp add: Array_sort_def p)
  have l: "load_history (Response True (Some history_csv_scenario)) = Inr [?e2, ?e1, ?e3]"
    using load_history_rows[OF history_scenario_parsed history_scenario_month_column]
    by (simp only: c srt)
  have i: "indexOf ?header (source_name Coal) = Some 1"
    by (simp add: indexOf_def)
  have f1: "fl 1 = Fin 1" using fl_of_nat[of 1] by simp
  have v: "safeNum0 (Str ''1'') = Fin 1" "safeNum0 (Str ''2'') = Fin 2" "safeNum0 (Str ''3'') = Fin 3"
    by (simp_all add: safeNum0_def parse_number_simps fl_numeral f1)
  have "map (\<lambda>e. vals e Coal) [?e2, ?e1, ?e3] = [Fin 2, Fin 1, Fin 3]"
    by (simp add: row_values_def i cell_def nth_opt_def v del: source_name.simps)
  then show ?thesis using l by simp
qed

text \<open>
  C4, as stated, fails in its second part. The ledger of the scenario in the
  specification, whose rows have the months \<open>01/2023\<close>, \<open>31/12/2022\<close> and \<open>13-01-2023\<close>,
  is loaded with three entries, \<open>12/2022\<close>, \<open>01/2023\<close> and \<open>01/2023\<close>: the two rows of
  January 2023 are both kept, with their own values.
\<close>

theorem ledger_keeps_duplicate_months:
  "\<exists>data. load_history (Response True (Some history_csv_scenario)) = Inr data
     \<and> history (history_effect (Response True (Some history_csv_scenario))
                  (initial_state0 (Store Map.empty))) = data
     \<and> map month data = [''12/2022'', ''01/2023'', ''01/2023'']
     \<and> map (\<lambda>e. vals e Coal) data = [Fin 2, Fin 1, Fin 3]
     \<and> \<not> distinct (map month data)"
  using history_scenario_loaded
proof (elim exE conjE)
  fix data
  assume d: "load_history (Response True (Some history_csv_scenario)) = Inr data"
    "map month data = [''12/2022'', ''01/2023'', ''01/2023'']"
    "map (\<lambda>e. vals e Coal) data = [Fin 2, Fin 1, Fin 3]"
  have h: "history (history_effect (Response True (Some history_csv_scenario))
                  (initial_state0 (Store Map.empty))) = data"
    using d(1) by (simp add: history_effect_def)
  have n: "\<not> distinct (map month data)"
    unfolding d(2) by simp
  show ?thesis
    by (intro exI[of _ data] conjI) (rule d(1) h d(2) d(3) n)+
qed

text \<open>
  C4, amended. The list that ingestion hands to the ledger is sorted ascending by year
  and month of the month key, every key being two digits, a slash and four digits, and
  it has one entry for each data row whose month normalises: its keys are the
  normalised months of these rows, each as often as it occurs among them. So the keys
  are unique exactly when no two rows normalise to the same month; rows of the same
  month are all kept.
\<close>

theorem ledger_sorted_duplicates_kept:
  "(load_history net = Inr data \<longrightarrow>
      history (history_effect net st) = data
      \<and> sorted_wrt month_le (map month data)
      \<and> list_all is_month_key (map month data))
   \<and> (parseCSV txt = Inr (header, rows)
      \<and> findIndex (\<lambda>h. toLowerCase (trim h) = ''month'') header = Some mIdx \<longrightarrow>
      (\<exists>data. load_history (Response True (Some txt)) = Inr data
         \<and> mset (map month data)
             = mset (List.map_filter (\<lambda>r. normalizeMonth (nth_opt r mIdx)) rows)
         \<and> (distinct (map month data)
              \<longleftrightarrow> distinct (List.map_filter (\<lambda>r. normalizeMonth (nth_opt r mIdx)) rows))))"
proof (intro conjI impI)
  assume l: "load_history net = Inr data"
  then show "history (history_effect net st) = data" by (simp add: history_effect_def)
  from l show "sorted_wrt month_le (map month data)" by (rule load_history_sorted)
  from l show "list_all is_month_key (map month data)" by (rule load_history_sorted)
next
  assume a: "parseCSV txt = Inr (header, rows)
      \<and> findIndex (\<lambda>h. toLowerCase (trim h) = ''month'') header = Some mIdx"
  let ?data = "Array_sort (\<lambda>a b. compareMonth (month a) (month b)) (collect header mIdx rows)"
  have l: "load_history (Response True (Some txt)) = Inr ?data"
    using a load_history_rows by blast
  have "image_mset month (mset ?data) = image_mset month (mset (collect header mIdx rows))"
    by (simp only: mset_Array_sort)
  then have "mset (map month ?data) = mset (map month (collect header mIdx rows))"
    by simp
  then have m: "mset (map month ?data)
      = mset (List.map_filter (\<lambda>r. normalizeMonth (nth_opt r mIdx)) rows)"
    by (simp add: collect_months)
  then have "distinct (map month ?data)
      \<longleftrightarrow> distinct (List.map_filter (\<lambda>r. normalizeMonth (nth_opt r mIdx)) rows)"
    by (rule mset_eq_imp_distinct_iff)
  then show "\<exists>data. load_history (Response True (Some txt)) = Inr data
         \<and> mset (map month data)
             = mset (List.map_filter (\<lambda>r. normalizeMonth (nth_opt r mIdx)) rows)
         \<and> (distinct (map month data)
              \<longleftrightarrow> distinct (List.map_filter (\<lambda>r. normalizeMonth (nth_opt r mIdx)) rows))"
    using l m by blast
qed

theorem ledger_sorted_witness:
  "(\<exists>data. load_history (Response True (Some history_csv_scenario)) = Inr data
      \<and> map month data = [''12/2022'', ''01/2023'', ''01/2023'']
      \<and> sorted_wrt month_le (map month data)
      \<and> list_all is_month_key (map month data)
      \<and> history (history_effect (Response True (Some history_csv_scenario))
                   (initial_state0 (Store Map.empty))) = data)
   \<and> parseCSV history_csv_scenario
       = Inr ([''Month'', ''Coal''],
              [[''01/2023'', ''1''], [''31/12/2022'', ''2''], [''13-01-2023'', ''3'']])
   \<and> findIndex (\<lambda>h. toLowerCase (trim h) = ''month'') [''Month'', ''Coal''] = Some 0
   \<and> (\<exists>data. load_history (Response True (Some history_csv_scenario)) = Inr data
         \<and> mset (map month data)
             = mset (List.map_filter (\<lambda>r. normalizeMonth (nth_opt r 0))
                       [[''01/2023'', ''1''], [''31/12/2022'', ''2''], [''13-01-2023'', ''3'']]))
   \<and> month_le ''12/2022'' ''01/2023''
   \<and> \<not> month_le ''01/2023'' ''12/2022''"
proof -
  have a: "\<exists>data. load_history (Response True (Some history_csv_scenario)) = Inr data
      \<and> map month data = [''12/2022'', ''01/2023'', ''01/2023'']
      \<and> sorted_wrt month_le (map month data)
      \<and> list_all is_month_key (map month data)
      \<and> history (history_effect (Response True (Some history_csv_scenario))
                   (initial_state0 (Store Map.empty))) = data"
    using history_scenario_loaded
  proof (elim exE conjE)
    fix data
    assume d: "load_history (Response True (Some history_csv_scenario)) = Inr data"
      "map month data = [''12/2022'', ''01/2023'', ''01/2023'']"
    note t = ledger_sorted_duplicates_kept[of "Response True (Some history_csv_scenario)" data
        "initial_state0 (Store Map.empty)", THEN conjunct1, THEN mp, OF d(1)]
    show ?thesis
      by (intro exI[of _ data] conjI)
        (rule d(1) d(2) t[THEN conjunct1] t[THEN conjunct2, THEN conjunct1]
          t[THEN conjunct2, THEN conjunct2])+
  qed
  note u = ledger_sorted_duplicates_kept[THEN conjunct2, THEN mp, OF conjI,
      OF history_scenario_parsed history_scenario_month_column]
  have b: "\<exists>data. load_history (Response True (Some history_csv_scenario)) = Inr data
         \<and> mset (map month data)
             = mset (List.map_filter (\<lambda>r. normalizeMonth (nth_opt r 0))
                       [[''01/2023'', ''1''], [''31/12/2022'', ''2''], [''13-01-2023'', ''3'']])"
    using u
  proof (elim exE conjE)
    fix data
    assume d: "load_history (Response True (Some history_csv_scenario)) = Inr data"
      "mset (map month data)
             = mset (List.map_filter (\<lambda>r. normalizeMonth (nth_opt r 0))
                       [[''01/2023'', ''1''], [''31/12/2022'', ''2''], [''13-01-2023'', ''3'']])"
    show ?thesis by (intro exI[of _ data] conjI) (rule d)+
  qed
  have le: "month_le ''12/2022'' ''01/2023''" "\<not> month_le ''01/2023'' ''12/2022''"
    by (simp_all add: month_le_def key_year_def key_month_def digits_val_def radix_val_def
        digit_val_def)
  show ?thesis
    apply (intro conjI)
         apply (rule a)
        apply (rule history_scenario_parsed)
       apply (rule history_scenario_month_column)
      apply (rule b)
     apply (rule le(1))
    apply (rule le(2))
    done
qed

section \<open>Going back months\<close>

lemma months_before_bounds:
  "1 \<le> mm \<Longrightarrow>
     1 \<le> fst (months_before N (mm, yy)) \<and> fst (months_before N (mm, yy)) \<le> max mm 12
     \<and> yy - int N \<le> snd (months_before N (mm, yy)) \<and> snd (months_before N (mm, yy)) \<le> yy"
proof (induction N arbitrary: mm yy)
  case 0
  then show ?case by simp
next
  case (Suc n)
  show ?case
  proof (cases "mm - 1 < 1")
    case True
    then show ?thesis using Suc.IH[of 12 "yy - 1"] Suc.prems by auto
  next
    case False
    then show ?thesis using Suc.IH[of "mm - 1" yy] Suc.prems by auto
  qed
qed

lemma months_before_closed:
  "1 \<le> mm \<Longrightarrow> mm \<le> 12 \<Longrightarrow>
     months_before N (mm, yy)
       = ((12 * yy + mm - 1 - int N) mod 12 + 1, (12 * yy + mm - 1 - int N) div 12)"
proof (induction N arbitrary: mm yy)
  case 0
  have "(12 * yy + mm - 1) mod 12 = mm - 1" "(12 * yy + mm - 1) div 12 = yy"
    using 0 by presburger+
  then show ?case by simp
next
  case (Suc n)
  show ?case
  proof (cases "mm - 1 < 1")
    case True
    then have m: "mm = 1" using Suc.prems by simp
    have t: "12 * (yy - 1) + 12 - 1 - int n = 12 * yy + mm - 1 - int (Suc n)" using m by simp
    have "months_before (Suc n) (mm, yy) = months_before n (12, yy - 1)" using True by simp
    also have "\<dots> = ((12 * (yy - 1) + 12 - 1 - int n) mod 12 + 1,
        (12 * (yy - 1) + 12 - 1 - int n) div 12)"
      by (rule Suc.IH) simp_all
    also have "\<dots> = ((12 * yy + mm - 1 - int (Suc n)) mod 12 + 1,
        (12 * yy + mm - 1 - int (Suc n)) div 12)"
      by (simp only: t)
    finally show ?thesis .
  next
    case False
    have t: "12 * yy + (mm - 1) - 1 - int n = 12 * yy + mm - 1 - int (Suc n)" by simp
    have "months_before (Suc n) (mm, yy) = months_before n (mm - 1, yy)" using False by simp
    also have "\<dots> = ((12 * yy + (mm - 1) - 1 - int n) mod 12 + 1,
        (12 * yy + (mm - 1) - 1 - int n) div 12)"
      using False Suc.prems by (intro Suc.IH) simp_all
    also have "\<dots> = ((12 * yy + mm - 1 - int (Suc n)) mod 12 + 1,
        (12 * yy + mm - 1 - int (Suc n)) div 12)"
      by (simp only: t)
    finally show ?thesis .
  qed
qed

lemma minusMonths_loop_zero: "minusMonths_loop (Fin 0) mm yy = Some (mm, yy)"
  by (subst minusMonths_loop.simps) simp

lemma minusMonths_loop_int:
  assumes "1 \<le> mm" "mm < 2 ^ 53" "yy < 2 ^ 53" "int N - 2 ^ 53 < yy" "N < 2 ^ 53"
  shows "minusMonths_loop (Fin (of_nat N)) (Fin (of_int mm)) (Some (Fin (of_int yy)))
    = Some (Fin (of_int (fst (months_before N (mm, yy)))),
            Some (Fin (of_int (snd (months_before N (mm, yy))))))"
  using assms
proof (induction N arbitrary: mm yy)
  case 0
  then show ?case by (simp add: minusMonths_loop_zero)
next
  case (Suc n)
  have n: "n < 2 ^ 53" using Suc.prems(5) by simp
  have nz: "Fin (of_nat (Suc n)) \<noteq> Fin 0" "Fin (of_nat (Suc n)) \<noteq> NaN"
    by (simp_all add: of_nat_eq_0_iff del: of_nat_Suc)
  have sn: "rat_of_nat (Suc n) - 1 = of_nat n" by simp
  have "js_minus (Fin (of_nat (Suc n))) (Fin 1) = fl (rat_of_nat (Suc n) - 1)"
    by (simp only: js_minus.simps)
  also have "\<dots> = fl (of_nat n)" by (simp only: sn)
  also have "\<dots> = Fin (of_nat n)" by (rule fl_of_nat[OF n])
  finally have dn: "js_minus (Fin (of_nat (Suc n))) (Fin 1) = Fin (of_nat n)" .
  have "\<bar>mm - 1\<bar> < 2 ^ 53" using Suc.prems(1,2) by simp
  then have "fl (of_int (mm - 1)) = Fin (of_int (mm - 1))" by (rule fl_of_int)
  then have dm: "js_minus (Fin (of_int mm)) (Fin 1) = Fin (of_int (mm - 1))" by simp
  have "\<bar>yy - 1\<bar> < 2 ^ 53" using Suc.prems(3,4) by simp
  then have "fl (of_int (yy - 1)) = Fin (of_int (yy - 1))" by (rule fl_of_int)
  then have dy: "js_minus (number_of (Some (Fin (of_int yy)))) (Fin 1) = Fin (of_int (yy - 1))"
    by (simp add: number_of_def)
  show ?case
  proof (cases "mm = 1")
    case True
    have e: "js_eq (Fin (of_int (mm - 1))) (Fin 0)"
      using True by simp
    have "minusMonths_loop (Fin (of_nat (Suc n))) (Fin (of_int mm)) (Some (Fin (of_int yy)))
        = minusMonths_loop (Fin (of_nat n)) (Fin 12) (Some (Fin (of_int (yy - 1))))"
      by (subst minusMonths_loop.simps) (simp only: nz dm e dn dy if_True if_False simp_thms)
    also have "\<dots> = minusMonths_loop (Fin (of_nat n)) (Fin (of_int 12)) (Some (Fin (of_int (yy - 1))))"
      by simp
    also have "\<dots> = Some (Fin (of_int (fst (months_before n (12, yy - 1)))),
            Some (Fin (of_int (snd (months_before n (12, yy - 1))))))"
      using Suc.prems n by (intro Suc.IH) simp_all
    finally show ?thesis using True by simp
  next
    case False
    then have m: "2 \<le> mm" using Suc.prems(1) by simp
    have e: "\<not> js_eq (Fin (of_int (mm - 1))) (Fin 0)"
      using False by simp
    have "minusMonths_loop (Fin (of_nat (Suc n))) (Fin (of_int mm)) (Some (Fin (of_int yy)))
        = minusMonths_loop (Fin (of_nat n)) (Fin (of_int (mm - 1))) (Some (Fin (of_int yy)))"
      by (subst minusMonths_loop.simps) (simp only: nz dm e dn if_True if_False simp_thms)
    also have "\<dots> = Some (Fin (of_int (fst (months_before n (mm - 1, yy)))),
            Some (Fin (of_int (snd (months_before n (mm - 1, yy))))))"
      using Suc.prems n m by (intro Suc.IH) simp_all
    finally show ?thesis using m by simp
  qed
qed

lemma Number_toString_int:
  assumes "\<bar>a\<bar> < 10 ^ 21"
  shows "Number_toString (Fin (of_int a)) = Some (String_int a)"
proof -
  have "\<bar>rat_of_int a\<bar> < 10 ^ 21"
    using assms by (metis of_int_abs of_int_less_iff of_int_numeral of_int_power)
  then show ?thesis by (simp add: Number_toString_def)
qed

lemma month_text_int:
  assumes "\<bar>a\<bar> < 10 ^ 21" "\<bar>b\<bar> < 10 ^ 21"
  shows "month_text (Fin (of_int a)) (Some (Fin (of_int b))) = Some (key_text (a, b))"
  by (simp add: month_text_def Number_toString_int[OF assms(1)] Number_toString_int[OF assms(2)]
      key_text_def)

lemma minusMonths_key:
  assumes "is_month_key m" "1 \<le> key_month m" "N < 2 ^ 53"
  shows "minusMonths m (Fin (of_nat N))
    = Some (Some (key_text (months_before N (int (key_month m), int (key_year m)))))"
proof -
  note b = key_numbers_bound[OF assms(1)]
  let ?r = "months_before N (int (key_month m), int (key_year m))"
  have l: "minusMonths_loop (Fin (of_nat N)) (Fin (of_int (int (key_month m))))
        (Some (Fin (of_int (int (key_year m)))))
      = Some (Fin (of_int (fst ?r)), Some (Fin (of_int (snd ?r))))"
    using assms(2,3) b by (intro minusMonths_loop_int) simp_all
  have bb: "1 \<le> fst ?r \<and> fst ?r \<le> max (int (key_month m)) 12
      \<and> int (key_year m) - int N \<le> snd ?r \<and> snd ?r \<le> int (key_year m)"
    using assms(2) by (intro months_before_bounds) simp
  have "(2::int) ^ 53 < 10 ^ 21" by simp
  then have "\<bar>fst ?r\<bar> < 10 ^ 21" "\<bar>snd ?r\<bar> < 10 ^ 21"
    using bb b assms(3) by auto
  then have t: "month_text (Fin (of_int (fst ?r))) (Some (Fin (of_int (snd ?r)))) = Some (key_text ?r)"
    using month_text_int[of "fst ?r" "snd ?r"] by simp
  show ?thesis
    using l t by (simp add: minusMonths_def month_parts_key[OF assms(1)] number_of_def)
qed

lemma String_int_nat: "String_int (int n) = String_nat n"
  by (simp add: String_int_def)

lemma minusMonths_zero:
  assumes "is_month_key m"
  shows "minusMonths m (Fin 0) = Some (Some (take 2 m @ ''/'' @ String_nat (key_year m)))"
proof -
  note b = key_numbers_bound[OF assms]
  note p = month_key_parts[OF assms]
  have "\<bar>int (key_month m)\<bar> < 10 ^ 21" "\<bar>int (key_year m)\<bar> < 10 ^ 21" using b by simp_all
  then have t: "month_text (Fin (of_int (int (key_month m)))) (Some (Fin (of_int (int (key_year m)))))
      = Some (key_text (int (key_month m), int (key_year m)))"
    by (rule month_text_int)
  have k: "key_text (int (key_month m), int (key_year m)) = take 2 m @ ''/'' @ String_nat (key_year m)"
    using pad_two_digits[OF p(2) p(3)] by (simp add: key_text_def String_int_nat key_month_def)
  show ?thesis
    using t k
    by (simp add: minusMonths_def month_parts_key[OF assms] number_of_def minusMonths_loop_zero)
qed

lemma length_String_nat: "0 < k \<Longrightarrow> n < 10 ^ k \<Longrightarrow> length (String_nat n) \<le> k"
proof (induction k arbitrary: n)
  case 0
  then show ?case by simp
next
  case (Suc k)
  show ?case
  proof (cases "n < 10")
    case True
    then show ?thesis by (simp add: String_nat_digit)
  next
    case False
    then have k: "0 < k" using Suc.prems(2) by (cases k) auto
    have "n div 10 < 10 ^ k" using Suc.prems(2) by (simp add: less_mult_imp_div_less mult.commute)
    then have "length (String_nat (n div 10)) \<le> k" using k by (intro Suc.IH)
    then show ?thesis using False by (subst String_nat.simps) simp
  qed
qed

lemma digits_val_Cons: "digits_val (c # s) = digit_val c * 10 ^ length s + digits_val s"
proof (induction s rule: rev_induct)
  case Nil
  then show ?case by (simp add: digits_val_single digits_val_Nil)
next
  case (snoc d s)
  have "digits_val (c # s @ [d]) = 10 * digits_val (c # s) + digit_val d"
    using digits_val_snoc[of "c # s" d] by simp
  then show ?case using snoc by (simp add: digits_val_snoc algebra_simps)
qed

lemma year_roundtrip:
  assumes "length y = 4" "list_all is_digit y"
  shows "String_nat (digits_val y) = y \<longleftrightarrow> 1000 \<le> digits_val y"
proof
  assume e: "String_nat (digits_val y) = y"
  show "1000 \<le> digits_val y"
  proof (rule ccontr)
    assume "\<not> 1000 \<le> digits_val y"
    then have "digits_val y < 10 ^ 3" by simp
    then have "length (String_nat (digits_val y)) \<le> 3" by (intro length_String_nat) simp_all
    then show False using e assms(1) by simp
  qed
next
  assume g: "1000 \<le> digits_val y"
  obtain c r where y: "y = c # r" "length r = 3" using assms(1) by (cases y) auto
  have r: "list_all is_digit r" "is_digit c" using assms(2) y by simp_all
  have "digits_val r < 10 ^ 3" using digits_val_bound[OF r(1)] y(2) by simp
  then have "digit_val c \<noteq> 0" using g y by (auto simp add: digits_val_Cons)
  then have "c \<noteq> CHR ''0''" by (auto simp add: digit_val_def)
  then show "String_nat (digits_val y) = y"
    using String_nat_digits_val[of y] assms(2) y by simp
qed

lemma minusMonths_zero_iff:
  assumes "is_month_key m"
  shows "minusMonths m (Fin 0) = Some (Some m) \<longleftrightarrow> 1000 \<le> key_year m"
proof -
  note p = month_key_parts[OF assms]
  have "minusMonths m (Fin 0) = Some (Some m)
      \<longleftrightarrow> take 2 m @ ''/'' @ String_nat (key_year m) = take 2 m @ CHR ''/'' # drop 3 m"
    using p(1) by (simp add: minusMonths_zero[OF assms])
  also have "\<dots> \<longleftrightarrow> String_nat (digits_val (drop 3 m)) = drop 3 m"
    by (simp add: key_year_def)
  also have "\<dots> \<longleftrightarrow> 1000 \<le> digits_val (drop 3 m)"
    using p(4) p(5) by (rule year_roundtrip)
  finally show ?thesis by (simp add: key_year_def)
qed

lemmas digits_eval_simps = digits_val_def radix_val_def digit_val_def is_digit_def

lemma String_nat_999: "String_nat 999 = ''999''"
  using String_nat_digits_val[of "''999''"] by (simp add: digits_eval_simps)

lemma String_nat_2022: "String_nat 2022 = ''2022''"
  using String_nat_digits_val[of "''2022''"] by (simp add: digits_eval_simps)

lemma String_nat_2023: "String_nat 2023 = ''2023''"
  using String_nat_digits_val[of "''2023''"] by (simp add: digits_eval_simps)

text \<open>
  C8, as stated, fails. The key \<open>01/0999\<close>, which \<open>normalizeMonth\<close> yields for \<open>1/0999\<close>,
  is not returned unchanged for \<open>N = 0\<close>: the year is converted to the number 999 and
  printed without its leading zero, \<open>01/999\<close>. And on the key \<open>00/2023\<close>, which
  \<open>normalizeMonth\<close> yields for \<open>0/2023\<close>, the month counter is below 1 after one
  decrement but does not wrap, for the code tests whether it is 0: the result of going
  back one month is \<open>-1/2023\<close>, not \<open>12/2022\<close>.
\<close>

theorem minusMonths_counterexample:
  "normalizeMonth (Some ''1/0999'') = Some ''01/0999''
   \<and> is_month_key ''01/0999''
   \<and> minusMonths ''01/0999'' (Fin 0) = Some (Some ''01/999'')
   \<and> normalizeMonth (Some ''0/2023'') = Some ''00/2023''
   \<and> is_month_key ''00/2023''
   \<and> minusMonths ''00/2023'' (Fin 1) = Some (Some ''-1/2023'')
   \<and> key_text (months_before 1 (0, 2023)) = ''12/2022''"
proof -
  have n1: "normalizeMonth (Some ''1/0999'') = Some ''01/0999''"
    by (simp add: month_eval_simps)
  have n2: "normalizeMonth (Some ''0/2023'') = Some ''00/2023''"
    by (simp add: month_eval_simps)
  have k1: "is_month_key ''01/0999''" and k2: "is_month_key ''00/2023''"
    by (simp_all add: is_month_key_def is_digit_def)
  have y1: "key_year ''01/0999'' = 999" by (simp add: key_year_def digits_eval_simps)
  have z: "minusMonths ''01/0999'' (Fin 0) = Some (Some ''01/999'')"
    using minusMonths_zero[OF k1] by (simp add: y1 String_nat_999)
  have km: "key_month ''00/2023'' = 0" "key_year ''00/2023'' = 2023"
    by (simp_all add: key_month_def key_year_def digits_eval_simps)
  have f1: "fl (- 1) = Fin (- 1)" using fl_of_int[of "- 1"] by simp
  have f0: "fl 0 = Fin 0" using fl_of_nat[of 0] by simp
  have d1: "js_minus (Fin 0) (Fin 1) = Fin (- 1)" using f1 by simp
  have d0: "js_minus (Fin 1) (Fin 1) = Fin 0" using f0 by simp
  have e: "\<not> js_eq (Fin (- 1)) (Fin 0)" by simp
  have nz: "Fin 1 \<noteq> Fin 0" "Fin 1 \<noteq> NaN" by simp_all
  have "minusMonths_loop (Fin 1) (Fin 0) (Some (Fin 2023))
      = minusMonths_loop (Fin 0) (Fin (- 1)) (Some (Fin 2023))"
    by (subst minusMonths_loop.simps) (simp only: nz d1 e d0 if_True if_False simp_thms)
  then have l: "minusMonths_loop (Fin 1) (Fin 0) (Some (Fin 2023)) = Some (Fin (- 1), Some (Fin 2023))"
    by (simp add: minusMonths_loop_zero)
  have t: "month_text (Fin (- 1)) (Some (Fin 2023)) = Some ''-1/2023''"
    using month_text_int[of "- 1" 2023]
    by (simp add: key_text_def String_int_def String_nat_digit digit_char_def String_nat_2023
        padStart_def)
  have o: "minusMonths ''00/2023'' (Fin 1) = Some (Some ''-1/2023'')"
    by (simp add: minusMonths_def month_parts_key[OF k2] km number_of_def l t)
  have s12: "String_nat 12 = ''12''"
    using String_nat_step[of 1 2] by (simp add: String_nat_digit digit_char_def)
  have w: "key_text (months_before 1 (0, 2023)) = ''12/2022''"
    by (simp add: key_text_def String_int_def s12 String_nat_2022 padStart_def)
  show ?thesis
    apply (intro conjI)
          apply (rule n1)
         apply (rule k1)
        apply (rule z)
       apply (rule n2)
      apply (rule k2)
     apply (rule o)
    apply (rule w)
    done
qed

text \<open>
  C8, amended. For a month key whose month is not \<open>00\<close> and a count \<open>N\<close> below \<open>2^53\<close>,
  \<open>minusMonths\<close> returns, and what it returns is the text of the month and year that
  going back \<open>N\<close> months yields, the month padded to two characters and the year printed
  as the integer it is, without padding. For a month from 1 to 12, going back \<open>N\<close> months
  from month \<open>mm\<close> of year \<open>yy\<close> yields month \<open>t mod 12 + 1\<close> of year \<open>t div 12\<close>, where
  \<open>t = 12 * yy + mm - 1 - N\<close>. For \<open>N = 0\<close> and any month key the result is the month, a
  slash and the year printed as an integer; it is the key itself exactly when the year
  is 1000 or more.
\<close>

theorem minusMonths_on_month_keys:
  "(is_month_key m \<and> 1 \<le> key_month m \<and> N < 2 ^ 53 \<longrightarrow>
      minusMonths m (Fin (of_nat N))
        = Some (Some (key_text (months_before N (int (key_month m), int (key_year m))))))
   \<and> (1 \<le> mm \<and> mm \<le> 12 \<longrightarrow>
        months_before N (mm, yy)
          = ((12 * yy + mm - 1 - int N) mod 12 + 1, (12 * yy + mm - 1 - int N) div 12))
   \<and> (is_month_key m \<longrightarrow>
        minusMonths m (Fin 0) = Some (Some (take 2 m @ ''/'' @ String_nat (key_year m)))
        \<and> (minusMonths m (Fin 0) = Some (Some m) \<longleftrightarrow> 1000 \<le> key_year m))"
proof (intro conjI impI)
  assume "is_month_key m \<and> 1 \<le> key_month m \<and> N < 2 ^ 53"
  then show "minusMonths m (Fin (of_nat N))
        = Some (Some (key_text (months_before N (int (key_month m), int (key_year m)))))"
    using minusMonths_key by blast
next
  assume "1 \<le> mm \<and> mm \<le> 12"
  then show "months_before N (mm, yy)
          = ((12 * yy + mm - 1 - int N) mod 12 + 1, (12 * yy + mm - 1 - int N) div 12)"
    using months_before_closed by blast
next
  assume k: "is_month_key m"
  then show "minusMonths m (Fin 0) = Some (Some (take 2 m @ ''/'' @ String_nat (key_year m)))"
    by (rule minusMonths_zero)
  from k show "minusMonths m (Fin 0) = Some (Some m) \<longleftrightarrow> 1000 \<le> key_year m"
    by (rule minusMonths_zero_iff)
qed

theorem minusMonths_witness:
  "is_month_key ''03/2023''
   \<and> minusMonths ''03/2023'' (Fin 14) = Some (Some ''01/2022'')
   \<and> months_before 14 (3, 2023) = (1, 2022)
   \<and> minusMonths ''03/2023'' (Fin 0) = Some (Some ''03/2023'')"
proof -
  have k: "is_month_key ''03/2023''"
    by (simp add: is_month_key_def is_digit_def)
  have km: "key_month ''03/2023'' = 3" "key_year ''03/2023'' = 2023"
    by (simp_all add: key_month_def key_year_def digits_eval_simps)
  have h: "is_month_key ''03/2023'' \<and> 1 \<le> key_month ''03/2023'' \<and> (14::nat) < 2 ^ 53"
    using k km by simp
  have c: "months_before 14 (3, 2023) = (1, 2022)"
    using minusMonths_on_month_keys[where mm = 3 and yy = 2023 and N = 14,
        THEN conjunct2, THEN conjunct1]
    by simp
  have t: "key_text (1, 2022) = ''01/2022''"
    by (simp add: key_text_def String_int_def String_nat_digit digit_char_def String_nat_2022
        padStart_def)
  have a: "minusMonths ''03/2023'' (Fin 14) = Some (Some ''01/2022'')"
    using minusMonths_on_month_keys[where m = "''03/2023''" and N = 14, THEN conjunct1, THEN mp, OF h]
    by (simp add: km c t)
  have z: "minusMonths ''03/2023'' (Fin 0) = Some (Some ''03/2023'')"
    using minusMonths_on_month_keys[where m = "''03/2023''", THEN conjunct2, THEN conjunct2,
        THEN mp, OF k, THEN conjunct2]
    by (simp add: km)
  show ?thesis
    apply (intro conjI)
       apply (rule k)
      apply (rule a)
     apply (rule c)
    apply (rule z)
    done
qed

end
